theory Spec2Isabelle
  imports Complex_Main "HOL-Library.Sublist"
begin

section \<open>The 4D mapping computation of Map4D.py\<close>

text \<open>
  The development embeds \<^verbatim>\<open>Map4D.execute\<close> and the guard of \<^verbatim>\<open>map_4D\<close>
  (file \<^verbatim>\<open>nionswift_plugin/nion_experimental_4dtools/Map4D.py\<close>).

  Python objects with identity (numpy buffers, calibration objects) live in an explicit
  store, so that aliasing and mutation can be stated. An array object is its shape
  together with the address of its buffer; the buffer holds the elements in C order
  (row-major), which is the order \<^verbatim>\<open>ravel()\<close> gives.

  The element type of numeric arrays is a type parameter with an addition. At type
  \<^typ>\<open>int\<close> sums are exact; a word type gives the wrap-around of numpy's integer
  accumulators. Floating-point rounding is not modelled.
\<close>

subsection \<open>Errors, store, objects\<close>

datatype error = AssertionError | ValueError string | IndexError | AxisError

type_synonym addr = nat

record calibration =
  offset :: real
  scale :: real
  units :: string

record ndarray =
  shape :: "nat list"
  buf :: addr

record 'a store =
  nums :: "'a list list"
  bools :: "bool list list"
  cals :: "calibration list"

text \<open>Allocation appends to the store: the new address is the old length.\<close>

definition new_num :: "nat list \<Rightarrow> 'a list \<Rightarrow> 'a store \<Rightarrow> ndarray \<times> 'a store" where
  "new_num s xs h = (\<lparr>shape = s, buf = length (nums h)\<rparr>, h\<lparr>nums := nums h @ [xs]\<rparr>)"

definition new_bool :: "nat list \<Rightarrow> bool list \<Rightarrow> 'a store \<Rightarrow> ndarray \<times> 'a store" where
  "new_bool s bs h = (\<lparr>shape = s, buf = length (bools h)\<rparr>, h\<lparr>bools := bools h @ [bs]\<rparr>)"

definition new_cal :: "calibration \<Rightarrow> 'a store \<Rightarrow> addr \<times> 'a store" where
  "new_cal c h = (length (cals h), h\<lparr>cals := cals h @ [c]\<rparr>)"

text \<open>The host objects the computation reads: \<^verbatim>\<open>DataAndMetadata\<close> (array plus
  calibrations, held by reference), \<^verbatim>\<open>Facade.DataSource\<close> with its \<^verbatim>\<open>xdata\<close>
  property, and \<^verbatim>\<open>Graphics.Graphic\<close> with its \<^verbatim>\<open>get_mask(shape)\<close> method, which
  hands out a boolean array of the store.\<close>

record data_and_metadata =
  data :: ndarray
  dimensional_calibrations :: "addr list"
  intensity_calibration :: addr

record data_source =
  xdata :: "data_and_metadata option"

record graphic =
  get_mask :: "nat list \<Rightarrow> ndarray"

subsection \<open>C-order indexing\<close>

fun ravel :: "nat list \<Rightarrow> nat list \<Rightarrow> nat" where
  "ravel (d # ds) (k # ks) = k * prod_list ds + ravel ds ks"
| "ravel _ _ = 0"

fun unravel :: "nat list \<Rightarrow> nat \<Rightarrow> nat list" where
  "unravel [] i = []"
| "unravel (d # ds) i = (i div prod_list ds) # unravel ds (i mod prod_list ds)"

text \<open>\<^verbatim>\<open>a[idx]\<close> for a full index tuple.\<close>

definition item :: "'b list list \<Rightarrow> ndarray \<Rightarrow> nat list \<Rightarrow> 'b" where
  "item bufs a idx = bufs ! buf a ! ravel (shape a) idx"

subsection \<open>The numpy functions used by execute\<close>

text \<open>\<^verbatim>\<open>np.reshape\<close> with at most one unknown (negative) dimension, after numpy's
  \<^verbatim>\<open>_fix_unknown_dimension\<close>: the unknown dimension is the size divided by the product
  of the known ones, and it is an error when that product is zero or does not divide
  the size. The result is a view: it shares the buffer.\<close>

definition fix_unknown_dimension :: "int list \<Rightarrow> nat \<Rightarrow> error + nat list" where
  "fix_unknown_dimension dims s_original =
    (let s_known = prod_list (map nat (filter (\<lambda>d. 0 \<le> d) dims));
         unknown = filter (\<lambda>d. d < 0) dims
     in if 1 < length unknown then Inl (ValueError ''can only specify one unknown dimension'')
        else if unknown \<noteq> [] then
          (if s_known = 0 \<or> s_original mod s_known \<noteq> 0
           then Inl (ValueError ''cannot reshape array'')
           else Inr (map (\<lambda>d. if d < 0 then s_original div s_known else nat d) dims))
        else if s_original \<noteq> s_known then Inl (ValueError ''cannot reshape array'')
        else Inr (map nat dims))"

definition np_reshape :: "ndarray \<Rightarrow> int list \<Rightarrow> error + ndarray" where
  "np_reshape a newshape =
    (case fix_unknown_dimension newshape (prod_list (shape a)) of
       Inl e \<Rightarrow> Inl e
     | Inr s \<Rightarrow> Inr \<lparr>shape = s, buf = buf a\<rparr>)"

text \<open>\<^verbatim>\<open>np.zeros(shape, dtype=np.bool_)\<close>.\<close>

definition np_zeros :: "nat list \<Rightarrow> 'a store \<Rightarrow> ndarray \<times> 'a store" where
  "np_zeros s h = new_bool s (replicate (prod_list s) False) h"

text \<open>Broadcasting: shapes are aligned at their last axis; two lengths are compatible
  when they are equal or one of them is 1.\<close>

fun broadcast_rev :: "nat list \<Rightarrow> nat list \<Rightarrow> nat list option" where
  "broadcast_rev [] ys = Some ys"
| "broadcast_rev xs [] = Some xs"
| "broadcast_rev (x # xs) (y # ys) =
     (if x = y \<or> y = 1 then map_option ((#) x) (broadcast_rev xs ys)
      else if x = 1 then map_option ((#) y) (broadcast_rev xs ys)
      else None)"

definition broadcast_shapes :: "nat list \<Rightarrow> nat list \<Rightarrow> nat list option" where
  "broadcast_shapes s t = map_option rev (broadcast_rev (rev s) (rev t))"

definition broadcast_index :: "nat list \<Rightarrow> nat list \<Rightarrow> nat \<Rightarrow> nat" where
  "broadcast_index s t i =
     ravel s (map2 (\<lambda>d k. if d = 1 then 0 else k) s (drop (length t - length s) (unravel t i)))"

definition broadcast_to :: "nat list \<Rightarrow> nat list \<Rightarrow> 'b list \<Rightarrow> 'b list" where
  "broadcast_to s t xs = map (\<lambda>i. xs ! broadcast_index s t i) [0..<prod_list t]"

text \<open>\<^verbatim>\<open>np.logical_or(a, b)\<close> without \<^verbatim>\<open>out=\<close>: a new array.\<close>

definition np_logical_or :: "ndarray \<Rightarrow> ndarray \<Rightarrow> 'a store \<Rightarrow> (error + ndarray) \<times> 'a store" where
  "np_logical_or a b h =
    (case broadcast_shapes (shape a) (shape b) of
       None \<Rightarrow> (Inl (ValueError ''operands could not be broadcast together''), h)
     | Some t \<Rightarrow>
         apfst Inr (new_bool t
           (map2 (\<or>) (broadcast_to (shape a) t (bools h ! buf a))
                      (broadcast_to (shape b) t (bools h ! buf b))) h))"

text \<open>\<^verbatim>\<open>a.any()\<close>.\<close>

definition np_any :: "ndarray \<Rightarrow> 'a store \<Rightarrow> bool" where
  "np_any a h = (True \<in> set (bools h ! buf a))"

text \<open>\<^verbatim>\<open>np.arange(a.size)[a.ravel()]\<close>: the flat indices at which the boolean array is
  true, ascending. Index arrays are temporaries of execute and are kept as values.\<close>

definition true_indices :: "ndarray \<Rightarrow> 'a store \<Rightarrow> nat list" where
  "true_indices a h = filter (\<lambda>i. bools h ! buf a ! i) [0..<prod_list (shape a)]"

text \<open>\<^verbatim>\<open>a[..., ind]\<close> with an integer index array: a new array (advanced indexing copies),
  IndexError for an index beyond the last axis.\<close>

definition index_last :: "ndarray \<Rightarrow> nat list \<Rightarrow> 'a store \<Rightarrow> (error + ndarray) \<times> 'a store" where
  "index_last a ind h =
    (if shape a = [] then (Inl IndexError, h)
     else let n = last (shape a); outer = butlast (shape a) in
       if \<exists>j \<in> set ind. n \<le> j then (Inl IndexError, h)
       else apfst Inr (new_num (outer @ [length ind])
              (concat (map (\<lambda>i. map (\<lambda>j. nums h ! buf a ! (i * n + j)) ind)
                           [0..<prod_list outer])) h))"

text \<open>\<^verbatim>\<open>np.sum(a, axis=-1)\<close>: a new array, one axis less.\<close>

definition np_sum :: "ndarray \<Rightarrow> 'a::monoid_add store \<Rightarrow> (error + ndarray) \<times> 'a store" where
  "np_sum a h =
    (if shape a = [] then (Inl AxisError, h)
     else let n = last (shape a); outer = butlast (shape a) in
       apfst Inr (new_num outer
         (map (\<lambda>i. sum_list (take n (drop (i * n) (nums h ! buf a)))) [0..<prod_list outer]) h))"

subsection \<open>The host's constructor\<close>

text \<open>Modelled from the spec: \<^verbatim>\<open>DataAndMetadata.new_data_and_metadata\<close> belongs to the
  host library and is not part of the source file. The spec (data model) says that
  calibration values are copied by value, not shared by reference, from source to
  result: every calibration handed in is copied into a new object.\<close>

fun copy_calibrations :: "addr list \<Rightarrow> 'a store \<Rightarrow> addr list \<times> 'a store" where
  "copy_calibrations [] h = ([], h)"
| "copy_calibrations (c # cs) h =
     (let (c', h1) = new_cal (cals h ! c) h;
          (cs', h2) = copy_calibrations cs h1
      in (c' # cs', h2))"

definition new_data_and_metadata ::
  "ndarray \<Rightarrow> addr list \<Rightarrow> addr \<Rightarrow> 'a store \<Rightarrow> data_and_metadata \<times> 'a store" where
  "new_data_and_metadata new_data dcs ic h =
    (let (dcs', h1) = copy_calibrations dcs h;
         (ic', h2) = new_cal (cals h1 ! ic) h1
     in (\<lparr>data = new_data, dimensional_calibrations = dcs', intensity_calibration = ic'\<rparr>, h2))"

subsection \<open>Map4D.execute\<close>

text \<open>The loop of lines 69-70.\<close>

fun mask_loop ::
  "graphic list \<Rightarrow> nat list \<Rightarrow> ndarray \<Rightarrow> 'a store \<Rightarrow> (error + ndarray) \<times> 'a store" where
  "mask_loop [] s mask_data h = (Inr mask_data, h)"
| "mask_loop (region # regions) s mask_data h =
     (case np_logical_or mask_data (get_mask region s) h of
        (Inl e, h1) \<Rightarrow> (Inl e, h1)
      | (Inr mask_data', h1) \<Rightarrow> mask_loop regions s mask_data' h1)"

text \<open>Lines 61-81. The value returned is what execute stores in
  \<^verbatim>\<open>self.__new_xdata\<close>; an exception leaves the attribute unset.\<close>

definition execute ::
  "data_source option \<Rightarrow> graphic list option \<Rightarrow> 'a::monoid_add store
     \<Rightarrow> (error + data_and_metadata) \<times> 'a store" where
  "execute src map_regions h =
    (case src of None \<Rightarrow> (Inl AssertionError, h) | Some s \<Rightarrow>
     case map_regions of None \<Rightarrow> (Inl AssertionError, h) | Some regions \<Rightarrow>
     case xdata s of None \<Rightarrow> (Inl AssertionError, h) | Some src_xdata \<Rightarrow>
     let data_shape = shape (data src_xdata) in
     case np_reshape (data src_xdata) (map int (take 2 data_shape) @ [- 1]) of
       Inl e \<Rightarrow> (Inl e, h)
     | Inr data' \<Rightarrow>
     let (mask0, h1) = np_zeros (drop 2 data_shape) h in
     case mask_loop regions (drop 2 data_shape) mask0 h1 of
       (Inl e, h2) \<Rightarrow> (Inl e, h2)
     | (Inr mask_data, h2) \<Rightarrow>
     case (if np_any mask_data h2
           then let ind = true_indices mask_data h2 in
                case index_last data' ind h2 of
                  (Inl e, h3) \<Rightarrow> (Inl e, h3)
                | (Inr selected, h3) \<Rightarrow> np_sum selected h3
           else np_sum data' h2) of
       (Inl e, h4) \<Rightarrow> (Inl e, h4)
     | (Inr new_data, h4) \<Rightarrow>
         apfst Inr (new_data_and_metadata new_data
                      (take 2 (dimensional_calibrations src_xdata))
                      (intensity_calibration src_xdata) h4))"

subsection \<open>The guard of map\_4D\<close>

record display_data_channel =
  data_item :: "data_source option"

record computation =
  processing_id :: string
  input_src :: display_data_channel
  input_map_regions :: "graphic list"

text \<open>Lines 141-164: the checks, then the computation handed to the document model
  (the display of the new item is the host's business). The property
  \<^verbatim>\<open>is_data_4d\<close> of the host's \<^verbatim>\<open>DataAndMetadata\<close> is not part of the source file:
  it is a parameter here, and nothing is assumed about how the host decides it.
  \<^verbatim>\<open>map_4D\<close> calls no numpy function: it leaves the store as it is, and execute runs
  later, on the computation it has created.\<close>

definition map_4D ::
  "(data_and_metadata \<Rightarrow> bool) \<Rightarrow> display_data_channel option \<Rightarrow> graphic list
     \<Rightarrow> 'a store \<Rightarrow> (error + computation) \<times> 'a store" where
  "map_4D is_data_4d channel map_regions h =
    (case channel of
       None \<Rightarrow> (Inl (ValueError ''Display item must have a single display.''), h)
     | Some display_data_channel \<Rightarrow>
     case data_item display_data_channel of
       None \<Rightarrow> (Inl AssertionError, h)
     | Some item' \<Rightarrow>
       if (case xdata item' of None \<Rightarrow> True | Some x \<Rightarrow> \<not> is_data_4d x)
       then (Inl (ValueError ''Data item must be 4D.''), h)
       else (Inr \<lparr>processing_id = ''nion.map_4d.2'',
                  input_src = display_data_channel,
                  input_map_regions = map_regions\<rparr>, h))"

subsection \<open>Predicates used in the statements\<close>

text \<open>The host's contract for \<^verbatim>\<open>get_mask\<close>: the array handed out for shape
  \<open>s\<close> has that shape and is an object of the store.\<close>

definition wf_mask :: "'a store \<Rightarrow> nat list \<Rightarrow> graphic \<Rightarrow> bool" where
  "wf_mask h s g = (shape (get_mask g s) = s \<and> buf (get_mask g s) < length (bools h)
                     \<and> length (bools h ! buf (get_mask g s)) = prod_list s)"

text \<open>An array of the store whose buffer holds as many elements as its shape says.\<close>

definition wf_source :: "'a store \<Rightarrow> ndarray \<Rightarrow> bool" where
  "wf_source h a = (buf a < length (nums h) \<and> length (nums h ! buf a) = prod_list (shape a))"

text \<open>The calibrations a \<^verbatim>\<open>DataAndMetadata\<close> refers to are objects of the store.\<close>

definition wf_calibrations :: "'a store \<Rightarrow> data_and_metadata \<Rightarrow> bool" where
  "wf_calibrations h x =
     (list_all (\<lambda>c. c < length (cals h)) (dimensional_calibrations x)
      \<and> intensity_calibration x < length (cals h))"

text \<open>Two graphics, each in its own store, whose masks for shape \<open>s\<close> are objects of
  their stores with the same shape and the same elements.\<close>

definition same_mask :: "'a store \<Rightarrow> 'a store \<Rightarrow> nat list \<Rightarrow> graphic \<Rightarrow> graphic \<Rightarrow> bool" where
  "same_mask h1 h2 s g1 g2 =
     (shape (get_mask g1 s) = shape (get_mask g2 s)
      \<and> buf (get_mask g1 s) < length (bools h1) \<and> buf (get_mask g2 s) < length (bools h2)
      \<and> bools h1 ! buf (get_mask g1 s) = bools h2 ! buf (get_mask g2 s))"

text \<open>What a caller can observe of an outcome: the error, or the result's shape, its
  elements and the values of its calibrations.\<close>

definition result_value ::
  "(error + data_and_metadata) \<times> 'a store
     \<Rightarrow> error + (nat list \<times> 'a list \<times> calibration list \<times> calibration)" where
  "result_value out =
    (case out of
       (Inl e, h) \<Rightarrow> Inl e
     | (Inr res, h) \<Rightarrow>
         Inr (shape (data res), nums h ! buf (data res),
              map ((!) (cals h)) (dimensional_calibrations res),
              cals h ! intensity_calibration res))"

text \<open>The same for the intermediate arrays: the error, or the shape and the elements.\<close>

definition mask_value :: "(error + ndarray) \<times> 'a store \<Rightarrow> error + nat list \<times> bool list" where
  "mask_value out = (case out of (Inl e, h) \<Rightarrow> Inl e | (Inr m, h) \<Rightarrow> Inr (shape m, bools h ! buf m))"

definition num_value :: "(error + ndarray) \<times> 'a store \<Rightarrow> error + nat list \<times> 'a list" where
  "num_value out = (case out of (Inl e, h) \<Rightarrow> Inl e | (Inr a, h) \<Rightarrow> Inr (shape a, nums h ! buf a))"

subsection \<open>Example objects\<close>

text \<open>A store with the 16 numbers 0..15 (read as a (2,2,2,2), a (2,2,4) or a (4,2,2)
  array), an empty buffer (an array with an empty scan plane), four masks and five
  calibrations.\<close>

definition ex_store :: "int store" where
  "ex_store =
     \<lparr>nums = [[0, 1, 2, 3, 4, 5, 6, 7, 8, 9, 10, 11, 12, 13, 14, 15], []],
      bools = [[True, False, False, False], [False, False, False, False],
               [False, True, True, False], [True]],
      cals = [\<lparr>offset = 0, scale = 1, units = ''nm''\<rparr>,
              \<lparr>offset = 1, scale = 2, units = ''nm''\<rparr>,
              \<lparr>offset = 0, scale = 1, units = ''mrad''\<rparr>,
              \<lparr>offset = 0, scale = 1, units = ''mrad''\<rparr>,
              \<lparr>offset = 0, scale = 1, units = ''counts''\<rparr>]\<rparr>"

definition ex_xdata :: "nat list \<Rightarrow> addr \<Rightarrow> data_and_metadata" where
  "ex_xdata s a =
     \<lparr>data = \<lparr>shape = s, buf = a\<rparr>,
      dimensional_calibrations = [0..<length s], intensity_calibration = 4\<rparr>"

definition ex_src :: "nat list \<Rightarrow> addr \<Rightarrow> data_source" where
  "ex_src s a = \<lparr>xdata = Some (ex_xdata s a)\<rparr>"

text \<open>A graphic whose mask is the boolean buffer at address \<open>k\<close>.\<close>

definition ex_graphic :: "addr \<Rightarrow> graphic" where
  "ex_graphic k = \<lparr>get_mask = (\<lambda>s. \<lparr>shape = s, buf = k\<rparr>)\<rparr>"

text \<open>A second store that holds the same source, masks and calibrations as the first,
  at other addresses and among other objects.\<close>

definition ex_store2 :: "int store" where
  "ex_store2 =
     \<lparr>nums = [[7, 7], [], [0, 1, 2, 3, 4, 5, 6, 7, 8, 9, 10, 11, 12, 13, 14, 15]],
      bools = [[False, True, True, False], [True, False, False, False]],
      cals = [\<lparr>offset = 0, scale = 1, units = ''counts''\<rparr>,
              \<lparr>offset = 0, scale = 1, units = ''mrad''\<rparr>,
              \<lparr>offset = 0, scale = 1, units = ''mrad''\<rparr>,
              \<lparr>offset = 1, scale = 2, units = ''nm''\<rparr>,
              \<lparr>offset = 0, scale = 1, units = ''nm''\<rparr>]\<rparr>"

definition ex_xdata2 :: data_and_metadata where
  "ex_xdata2 =
     \<lparr>data = \<lparr>shape = [2, 2, 2, 2], buf = 2\<rparr>,
      dimensional_calibrations = [4, 3, 2, 1], intensity_calibration = 0\<rparr>"

section \<open>Properties of the store operations\<close>

lemma np_logical_or_frame:
  assumes "np_logical_or a b h = (r, h')"
  shows "nums h' = nums h \<and> cals h' = cals h \<and> prefix (bools h) (bools h')"
  using assms by (auto simp: np_logical_or_def new_bool_def split: option.splits)

lemma mask_loop_frame:
  "mask_loop rs s m h = (r, h') \<Longrightarrow> nums h' = nums h \<and> cals h' = cals h \<and> prefix (bools h) (bools h')"
proof (induction rs arbitrary: m h)
  case Nil
  then show ?case by simp
next
  case (Cons g rs)
  obtain r1 h1 where s1: "np_logical_or m (get_mask g s) h = (r1, h1)"
    by (cases "np_logical_or m (get_mask g s) h")
  note f1 = np_logical_or_frame [OF s1]
  show ?case
  proof (cases r1)
    case (Inl e)
    with Cons.prems s1 f1 show ?thesis by simp
  next
    case (Inr m1)
    with Cons.prems s1 have "mask_loop rs s m1 h1 = (r, h')" by simp
    from Cons.IH [OF this] f1 show ?thesis by (auto intro: prefix_order.trans)
  qed
qed

lemma index_last_frame:
  assumes "index_last a ind h = (r, h')"
  shows "bools h' = bools h \<and> cals h' = cals h \<and> prefix (nums h) (nums h')
         \<and> (\<forall>b. r = Inr b \<longrightarrow> buf b = length (nums h) \<and> nums h' = nums h @ [nums h' ! buf b])"
  using assms by (auto simp: index_last_def new_num_def Let_def split: if_splits)

lemma np_sum_frame:
  assumes "np_sum a h = (r, h')"
  shows "bools h' = bools h \<and> cals h' = cals h \<and> prefix (nums h) (nums h')
         \<and> (\<forall>b. r = Inr b \<longrightarrow> buf b = length (nums h) \<and> nums h' = nums h @ [nums h' ! buf b])"
  using assms by (auto simp: np_sum_def new_num_def Let_def split: if_splits)

section \<open>Combining the masks\<close>

lemma broadcast_rev_same: "broadcast_rev xs xs = Some xs"
  by (induction xs) auto

lemma broadcast_shapes_same: "broadcast_shapes s s = Some s"
  by (simp add: broadcast_shapes_def broadcast_rev_same)

lemma ravel_unravel_masked:
  "i < prod_list s \<Longrightarrow> ravel s (map2 (\<lambda>d k. if d = 1 then 0 else k) s (unravel s i)) = i"
proof (induction s arbitrary: i)
  case Nil
  then show ?case by simp
next
  case (Cons d ds)
  let ?p = "prod_list ds"
  from Cons.prems have lt: "i < d * ?p" by simp
  then have ppos: "0 < ?p" by (cases "?p = 0") auto
  then have m: "i mod ?p < ?p" by simp
  have q: "d = 1 \<Longrightarrow> i div ?p = 0 \<and> i mod ?p = i" using lt by simp
  have r: "i div ?p * ?p + i mod ?p = i" by simp
  show ?case using Cons.IH [OF m] q r by auto
qed

lemma broadcast_index_same: "i < prod_list s \<Longrightarrow> broadcast_index s s i = i"
  using ravel_unravel_masked [of i s] by (simp add: broadcast_index_def)

lemma broadcast_to_same:
  assumes "length xs = prod_list s"
  shows "broadcast_to s s xs = xs"
proof -
  have "broadcast_to s s xs = map (\<lambda>i. xs ! i) [0..<length xs]"
    unfolding broadcast_to_def using assms by (simp add: broadcast_index_same)
  then show ?thesis by (simp add: map_nth)
qed

lemma np_logical_or_same:
  assumes "shape a = s" "shape b = s"
    and "length (bools h ! buf a) = prod_list s" "length (bools h ! buf b) = prod_list s"
  shows "np_logical_or a b h =
           (Inr \<lparr>shape = s, buf = length (bools h)\<rparr>,
            h\<lparr>bools := bools h @ [map2 (\<or>) (bools h ! buf a) (bools h ! buf b)]\<rparr>)"
  using assms
  by (simp add: np_logical_or_def broadcast_shapes_same broadcast_to_same new_bool_def)

lemma prefix_nth: "prefix xs ys \<Longrightarrow> i < length xs \<Longrightarrow> ys ! i = xs ! i"
  by (auto simp: prefix_def nth_append)

lemma mask_loop_sem:
  assumes "\<forall>g \<in> set rs. wf_mask h0 s g" and "prefix (bools h0) (bools h)"
    and "shape m = s" and "length (bools h ! buf m) = prod_list s"
  shows "\<exists>m' h'. mask_loop rs s m h = (Inr m', h') \<and> shape m' = s
           \<and> bools h' ! buf m' =
               map (\<lambda>i. bools h ! buf m ! i \<or> (\<exists>g \<in> set rs. bools h0 ! buf (get_mask g s) ! i))
                   [0..<prod_list s]"
  using assms
proof (induction rs arbitrary: m h)
  case Nil
  then have "map ((!) (bools h ! buf m)) [0..<prod_list s] = bools h ! buf m"
    by (metis map_nth)
  with Nil show ?case by simp
next
  case (Cons g rs)
  let ?b = "get_mask g s"
  from Cons.prems(1) have wg: "wf_mask h0 s g" and wrs: "\<forall>g \<in> set rs. wf_mask h0 s g" by auto
  from wg have bs: "shape ?b = s" and bl: "buf ?b < length (bools h0)"
    and bn: "length (bools h0 ! buf ?b) = prod_list s" by (auto simp: wf_mask_def)
  have rd: "bools h ! buf ?b = bools h0 ! buf ?b"
    using prefix_nth [OF Cons.prems(2) bl] .
  define m1 where "m1 = \<lparr>shape = s, buf = length (bools h)\<rparr>"
  define h1 where "h1 = h\<lparr>bools := bools h @ [map2 (\<or>) (bools h ! buf m) (bools h ! buf ?b)]\<rparr>"
  have step: "np_logical_or m ?b h = (Inr m1, h1)"
    unfolding m1_def h1_def
    by (rule np_logical_or_same [OF Cons.prems(3) bs Cons.prems(4)]) (simp add: rd bn)
  have p1: "prefix (bools h0) (bools h1)"
    using Cons.prems(2) by (auto simp: h1_def prefix_def)
  have c1: "bools h1 ! buf m1 = map2 (\<or>) (bools h ! buf m) (bools h0 ! buf ?b)"
    by (simp add: h1_def m1_def rd)
  have l1: "length (bools h1 ! buf m1) = prod_list s"
    by (simp add: c1 Cons.prems(4) bn)
  have s1: "shape m1 = s" by (simp add: m1_def)
  from Cons.IH [OF wrs p1 s1 l1] obtain m' h' where
    r: "mask_loop rs s m1 h1 = (Inr m', h')" "shape m' = s"
    and c: "bools h' ! buf m' =
       map (\<lambda>i. bools h1 ! buf m1 ! i \<or> (\<exists>g \<in> set rs. bools h0 ! buf (get_mask g s) ! i))
           [0..<prod_list s]" by blast
  have "mask_loop (g # rs) s m h = (Inr m', h')" using step r by simp
  moreover have "bools h' ! buf m' =
       map (\<lambda>i. bools h ! buf m ! i \<or> (\<exists>g \<in> set (g # rs). bools h0 ! buf (get_mask g s) ! i))
           [0..<prod_list s]"
    unfolding c c1 using Cons.prems(4) bn by auto
  ultimately show ?case using r(2) by blast
qed

section \<open>Reshaping and selecting\<close>

lemma fix_unknown_4d:
  assumes "0 < R" "0 < C"
  shows "fix_unknown_dimension (map int (take 2 [R, C, H, W]) @ [- 1]) (prod_list [R, C, H, W])
           = Inr [R, C, H * W]"
proof -
  have "R * (C * (H * W)) mod (R * C) = 0" "R * (C * (H * W)) div (R * C) = H * W"
    using assms by (simp_all add: mult.assoc [symmetric])
  then show ?thesis using assms by (simp add: fix_unknown_dimension_def)
qed

lemma fix_unknown_4d_empty:
  assumes "R = 0 \<or> C = 0"
  shows "fix_unknown_dimension (map int (take 2 [R, C, H, W]) @ [- 1]) (prod_list [R, C, H, W])
           = Inl (ValueError ''cannot reshape array'')"
  using assms by (auto simp add: fix_unknown_dimension_def)

lemma concat_chunk:
  assumes "\<And>k. k < N \<Longrightarrow> length (f k) = L" and "i < N"
  shows "take L (drop (i * L) (concat (map f [0..<N]))) = f i"
  using assms
proof (induction N)
  case 0
  then show ?case by simp
next
  case (Suc N)
  let ?A = "concat (map f [0..<N])"
  have len: "length ?A = N * L"
    using Suc.prems(1) by (induction N) (auto simp: length_concat)
  show ?case
  proof (cases "i < N")
    case True
    then have "i * L + L \<le> N * L"
      by (metis Suc_leI mult_Suc mult_le_mono1 add.commute)
    then have "take L (drop (i * L) (?A @ f N)) = take L (drop (i * L) ?A)"
      using len by simp
    also have "\<dots> = f i" using Suc.IH Suc.prems(1) True by simp
    finally show ?thesis by simp
  next
    case False
    with Suc.prems(2) have "i = N" by simp
    then show ?thesis using len Suc.prems(1) [of N] by simp
  qed
qed

section \<open>Copying the calibrations\<close>

lemma copy_calibrations_explicit:
  "copy_calibrations cs h =
     ([length (cals h)..<length (cals h) + length cs],
      h\<lparr>cals := foldl (\<lambda>l c. l @ [l ! c]) (cals h) cs\<rparr>)"
proof (induction cs arbitrary: h)
  case Nil
  then show ?case by simp
next
  case (Cons c cs)
  show ?case
    by (simp add: Cons.IH new_cal_def upt_conv_Cons del: upt_Suc)
qed

lemma length_foldl_copy: "length (foldl (\<lambda>l c. l @ [l ! c]) l0 cs) = length l0 + length cs"
  by (induction cs arbitrary: l0) auto

lemma new_data_and_metadata_explicit:
  "new_data_and_metadata nd dcs ic h =
     (\<lparr>data = nd,
       dimensional_calibrations = [length (cals h)..<length (cals h) + length dcs],
       intensity_calibration = length (cals h) + length dcs\<rparr>,
      h\<lparr>cals := foldl (\<lambda>l c. l @ [l ! c]) (cals h) (dcs @ [ic])\<rparr>)"
  by (simp add: new_data_and_metadata_def copy_calibrations_explicit new_cal_def length_foldl_copy)

lemma foldl_copy_wf:
  "\<forall>c \<in> set cs. c < length l0 \<Longrightarrow> foldl (\<lambda>l c. l @ [l ! c]) l0 cs = l0 @ map ((!) l0) cs"
proof (induction cs arbitrary: l0)
  case Nil
  then show ?case by simp
next
  case (Cons a cs)
  let ?l1 = "l0 @ [l0 ! a]"
  from Cons.prems have b: "\<forall>c \<in> set cs. c < length ?l1" by auto
  have "map ((!) ?l1) cs = map ((!) l0) cs"
    using Cons.prems by (auto simp: nth_append)
  with Cons.IH [OF b] show ?case by simp
qed

section \<open>What execute computes on a 4D source\<close>

lemma np_reshape_4d:
  assumes "shape a = [R, C, H, W]" "0 < R" "0 < C"
  shows "np_reshape a (map int (take 2 (shape a)) @ [- 1]) = Inr \<lparr>shape = [R, C, H * W], buf = buf a\<rparr>"
  unfolding np_reshape_def assms(1) fix_unknown_4d [OF assms(2,3)] by simp

lemma np_reshape_4d_empty:
  assumes "shape a = [R, C, H, W]" "R = 0 \<or> C = 0"
  shows "np_reshape a (map int (take 2 (shape a)) @ [- 1]) = Inl (ValueError ''cannot reshape array'')"
  unfolding np_reshape_def assms(1) fix_unknown_4d_empty [OF assms(2)] by simp

text \<open>The combined mask after the loop, for well-formed region masks.\<close>

lemma combined_mask:
  fixes h :: "'a store"
  assumes wf: "\<forall>g \<in> set rs. wf_mask h s g"
  shows "\<exists>m h2. mask_loop rs s (fst (np_zeros s h)) (snd (np_zeros s h)) = (Inr m, h2)
           \<and> shape m = s \<and> nums h2 = nums h \<and> cals h2 = cals h \<and> prefix (bools h) (bools h2)
           \<and> bools h2 ! buf m = map (\<lambda>i. \<exists>g \<in> set rs. bools h ! buf (get_mask g s) ! i) [0..<prod_list s]"
proof -
  let ?m0 = "fst (np_zeros s h)" and ?h1 = "snd (np_zeros s h)"
  have p: "prefix (bools h) (bools ?h1)" by (simp add: np_zeros_def new_bool_def)
  have s0: "shape ?m0 = s" by (simp add: np_zeros_def new_bool_def)
  have c0: "bools ?h1 ! buf ?m0 = replicate (prod_list s) False"
    by (simp add: np_zeros_def new_bool_def)
  then have l0: "length (bools ?h1 ! buf ?m0) = prod_list s" by simp
  from mask_loop_sem [OF wf p s0 l0] obtain m h2 where
    r: "mask_loop rs s ?m0 ?h1 = (Inr m, h2)" and sm: "shape m = s"
    and c: "bools h2 ! buf m =
       map (\<lambda>i. bools ?h1 ! buf ?m0 ! i \<or> (\<exists>g \<in> set rs. bools h ! buf (get_mask g s) ! i))
           [0..<prod_list s]" by blast
  from mask_loop_frame [OF r] have f: "nums h2 = nums h" "cals h2 = cals h" "prefix (bools h) (bools h2)"
    by (auto simp: np_zeros_def new_bool_def dest: append_prefixD)
  have "bools h2 ! buf m = map (\<lambda>i. \<exists>g \<in> set rs. bools h ! buf (get_mask g s) ! i) [0..<prod_list s]"
    unfolding c c0 by simp
  with r sm f show ?thesis by blast
qed

lemma execute_4d:
  fixes h :: "'a::monoid_add store"
  assumes x: "xdata s = Some x" and sh: "shape (data x) = [R, C, H, W]"
    and R: "0 < R" and C: "0 < C"
    and wf: "\<forall>g \<in> set rs. wf_mask h [H, W] g"
  defines "cm \<equiv> \<lambda>i. \<exists>g \<in> set rs. bools h ! buf (get_mask g [H, W]) ! i"
    and "xs \<equiv> nums h ! buf (data x)"
  shows "\<exists>nd h4. execute (Some s) (Some rs) h =
            apfst Inr (new_data_and_metadata nd (take 2 (dimensional_calibrations x))
                         (intensity_calibration x) h4)
          \<and> cals h4 = cals h \<and> prefix (bools h) (bools h4)
          \<and> (if \<exists>i < H * W. cm i
              then nd = \<lparr>shape = [R, C], buf = Suc (length (nums h))\<rparr> \<and>
                   nums h4 = nums h @
                     [concat (map (\<lambda>k. map (\<lambda>j. xs ! (k * (H * W) + j)) (filter cm [0..<H * W]))
                                  [0..<R * C]),
                      map (\<lambda>k. sum_list (map (\<lambda>j. xs ! (k * (H * W) + j)) (filter cm [0..<H * W])))
                          [0..<R * C]]
              else nd = \<lparr>shape = [R, C], buf = length (nums h)\<rparr> \<and>
                   nums h4 = nums h @
                     [map (\<lambda>k. sum_list (take (H * W) (drop (k * (H * W)) xs))) [0..<R * C]])"
proof -
  define d where "d = \<lparr>shape = [R, C, H * W], buf = buf (data x)\<rparr>"
  have rs: "np_reshape (data x) (map int (take 2 (shape (data x))) @ [- 1]) = Inr d"
    unfolding d_def by (rule np_reshape_4d [OF sh R C])
  have dr: "drop 2 (shape (data x)) = [H, W]" by (simp add: sh)
  obtain m0 h1 where z: "np_zeros [H, W] h = (m0, h1)"
    by (cases "np_zeros [H, W] h")
  from combined_mask [OF wf] obtain m h2 where
    lp: "mask_loop rs [H, W] m0 h1 = (Inr m, h2)"
    and sm: "shape m = [H, W]" and n2: "nums h2 = nums h" and c2: "cals h2 = cals h"
    and p2: "prefix (bools h) (bools h2)"
    and cont: "bools h2 ! buf m = map cm [0..<prod_list [H, W]]"
    unfolding cm_def z fst_conv snd_conv by blast
  have any: "np_any m h2 = (\<exists>i < H * W. cm i)"
    unfolding np_any_def cont by auto
  have ind: "true_indices m h2 = filter cm [0..<H * W]"
    unfolding true_indices_def cont sm by (auto intro: filter_cong)
  have ex: "execute (Some s) (Some rs) h =
     (case (if np_any m h2
           then case index_last d (true_indices m h2) h2 of
                  (Inl e, h3) \<Rightarrow> (Inl e, h3)
                | (Inr selected, h3) \<Rightarrow> np_sum selected h3
           else np_sum d h2) of
       (Inl e, h4) \<Rightarrow> (Inl e, h4)
     | (Inr new_data, h4) \<Rightarrow>
         apfst Inr (new_data_and_metadata new_data
                      (take 2 (dimensional_calibrations x))
                      (intensity_calibration x) h4))"
    unfolding execute_def using x rs z lp by (simp add: dr Let_def)
  show ?thesis
  proof (cases "\<exists>i < H * W. cm i")
    case True
    let ?ind = "filter cm [0..<H * W]"
    let ?sel = "concat (map (\<lambda>k. map (\<lambda>j. xs ! (k * (H * W) + j)) ?ind) [0..<R * C])"
    define h3 where "h3 = h2\<lparr>nums := nums h @ [?sel]\<rparr>"
    define sl where "sl = \<lparr>shape = [R, C, length ?ind], buf = length (nums h)\<rparr>"
    have il: "index_last d ?ind h2 = (Inr sl, h3)"
      unfolding index_last_def d_def h3_def sl_def new_num_def xs_def
      by (simp add: n2 Let_def)
    have chunk: "\<And>k. k < R * C \<Longrightarrow>
        take (length ?ind) (drop (k * length ?ind) ?sel) = map (\<lambda>j. xs ! (k * (H * W) + j)) ?ind"
      by (rule concat_chunk) simp_all
    define h4 where "h4 = h3\<lparr>nums := nums h @ [?sel,
        map (\<lambda>k. sum_list (map (\<lambda>j. xs ! (k * (H * W) + j)) ?ind)) [0..<R * C]]\<rparr>"
    have sm4: "np_sum sl h3 = (Inr \<lparr>shape = [R, C], buf = Suc (length (nums h))\<rparr>, h4)"
      unfolding np_sum_def sl_def h3_def h4_def new_num_def
      by (simp add: chunk Let_def)
    have "execute (Some s) (Some rs) h =
        apfst Inr (new_data_and_metadata \<lparr>shape = [R, C], buf = Suc (length (nums h))\<rparr>
                     (take 2 (dimensional_calibrations x)) (intensity_calibration x) h4)"
    proof -
      have "np_any m h2" using True any by simp
      then show ?thesis unfolding ex using ind il sm4 by simp
    qed
    moreover have "cals h4 = cals h" "prefix (bools h) (bools h4)"
      using c2 p2 by (simp_all add: h4_def h3_def)
    moreover have "nums h4 = nums h @ [?sel,
        map (\<lambda>k. sum_list (map (\<lambda>j. xs ! (k * (H * W) + j)) ?ind)) [0..<R * C]]"
      by (simp add: h4_def)
    ultimately show ?thesis using True by auto
  next
    case False
    define h4 where "h4 = h2\<lparr>nums := nums h @
        [map (\<lambda>k. sum_list (take (H * W) (drop (k * (H * W)) xs))) [0..<R * C]]\<rparr>"
    have sm4: "np_sum d h2 = (Inr \<lparr>shape = [R, C], buf = length (nums h)\<rparr>, h4)"
      unfolding np_sum_def d_def h4_def new_num_def xs_def
      by (simp add: n2 Let_def)
    have "execute (Some s) (Some rs) h =
        apfst Inr (new_data_and_metadata \<lparr>shape = [R, C], buf = length (nums h)\<rparr>
                     (take 2 (dimensional_calibrations x)) (intensity_calibration x) h4)"
    proof -
      have "\<not> np_any m h2" using False any by simp
      then show ?thesis unfolding ex using sm4 by simp
    qed
    moreover have "cals h4 = cals h" "prefix (bools h) (bools h4)"
      using c2 p2 by (simp_all add: h4_def)
    moreover have "nums h4 = nums h @
        [map (\<lambda>k. sum_list (take (H * W) (drop (k * (H * W)) xs))) [0..<R * C]]"
      by (simp add: h4_def)
    ultimately show ?thesis using False by auto
  qed
qed

section \<open>Sums over the collection plane\<close>

lemma sum_list_filter_upt:
  fixes f :: "nat \<Rightarrow> 'a::comm_monoid_add"
  shows "sum_list (map f (filter P [0..<n])) = sum f {j. j < n \<and> P j}"
proof -
  have "sum_list (map f (filter P [0..<n])) = sum f (set (filter P [0..<n]))"
    by (rule sum_list_distinct_conv_sum_set) simp
  also have "set (filter P [0..<n]) = {j. j < n \<and> P j}" by auto
  finally show ?thesis .
qed

lemma take_drop_nth:
  assumes "m + n \<le> length xs"
  shows "take n (drop m xs) = map (\<lambda>j. xs ! (m + j)) [0..<n]"
  using assms by (auto intro!: nth_equalityI)

lemma sum_list_take_drop:
  fixes xs :: "'a::comm_monoid_add list"
  assumes "m + n \<le> length xs"
  shows "sum_list (take n (drop m xs)) = (\<Sum>j < n. xs ! (m + j))"
proof -
  have "sum_list (take n (drop m xs)) = sum_list (map (\<lambda>j. xs ! (m + j)) (filter (\<lambda>_. True) [0..<n]))"
    by (simp add: take_drop_nth [OF assms])
  also have "\<dots> = sum (\<lambda>j. xs ! (m + j)) {j. j < n \<and> True}"
    by (rule sum_list_filter_upt)
  finally show ?thesis by (simp add: lessThan_def)
qed

text \<open>Flat indices of the collection plane against pairs (row, column).\<close>

lemma sum_flat_pairs:
  fixes f :: "nat \<Rightarrow> 'a::comm_monoid_add"
  shows "sum f {j. j < H * W \<and> P j} =
         (\<Sum>(p, q) \<in> {(p, q). p < H \<and> q < W \<and> P (p * W + q)}. f (p * W + q))"
proof -
  have fwd: "p * W + q < H * W" if "p < H" "q < W" for p q
  proof -
    have "p * W + q < p * W + W" using that by simp
    also have "\<dots> = Suc p * W" by simp
    also have "\<dots> \<le> H * W" using that(1) by (intro mult_le_mono1) simp
    finally show ?thesis .
  qed
  have bwd: "j div W < H \<and> j mod W < W \<and> j div W * W + j mod W = j" if "j < H * W" for j
  proof -
    from that have "0 < W" by (cases W) auto
    with that show ?thesis by (simp add: less_mult_imp_div_less)
  qed
  show ?thesis
    by (rule sum.reindex_bij_witness [where i = "\<lambda>(p, q). p * W + q" and j = "\<lambda>j. (j div W, j mod W)"])
       (auto simp: fwd bwd)
qed

section \<open>The result of execute, element by element\<close>

lemma ravel2: "ravel [H, W] [p, q] = p * W + q"
  by simp

lemma ravel4: "ravel [R, C, H, W] [r, c, p, q] = (r * C + c) * (H * W) + (p * W + q)"
  by (simp add: algebra_simps)

lemma scan_index: "r < R \<Longrightarrow> c < C \<Longrightarrow> r * C + c < R * (C::nat)"
proof -
  assume a: "r < R" "c < C"
  then have "r * C + c < Suc r * C" by simp
  also have "\<dots> \<le> R * C" using a(1) by (intro mult_le_mono1) simp
  finally show ?thesis .
qed

lemma chunk_bound: "k < N \<Longrightarrow> k * L + L \<le> N * (L::nat)"
proof -
  assume "k < N"
  then have "Suc k * L \<le> N * L" by (intro mult_le_mono1) simp
  then show ?thesis by (simp add: add.commute)
qed

lemma execute_4d_items:
  fixes h :: "'a::comm_monoid_add store"
  assumes x: "xdata s = Some x" and sh: "shape (data x) = [R, C, H, W]"
    and R: "0 < R" and C: "0 < C"
    and src: "wf_source h (data x)"
    and wf: "\<forall>g \<in> set rs. wf_mask h [H, W] g"
  defines "M \<equiv> \<lambda>p q. \<exists>g \<in> set rs. item (bools h) (get_mask g [H, W]) [p, q]"
  shows "\<exists>res h'. execute (Some s) (Some rs) h = (Inr res, h') \<and> shape (data res) = [R, C]
          \<and> (\<forall>r < R. \<forall>c < C. item (nums h') (data res) [r, c] =
                (if \<exists>p < H. \<exists>q < W. M p q
                 then \<Sum>(p, q) \<in> {(p, q). p < H \<and> q < W \<and> M p q}. item (nums h) (data x) [r, c, p, q]
                 else \<Sum>(p, q) \<in> {(p, q). p < H \<and> q < W}. item (nums h) (data x) [r, c, p, q]))"
proof -
  define cm where "cm = (\<lambda>i. \<exists>g \<in> set rs. bools h ! buf (get_mask g [H, W]) ! i)"
  define xs where "xs = nums h ! buf (data x)"
  have len: "length xs = R * C * (H * W)"
    using src by (simp add: wf_source_def xs_def sh mult.assoc)
  have M: "M p q = cm (p * W + q)" for p q
    unfolding M_def cm_def item_def using wf by (auto simp: wf_mask_def)
  have it: "item (nums h) (data x) [r, c, p, q] = xs ! ((r * C + c) * (H * W) + (p * W + q))" for r c p q
    unfolding item_def sh ravel4 xs_def ..
  have anyM: "(\<exists>i < H * W. cm i) = (\<exists>p < H. \<exists>q < W. M p q)"
  proof
    assume "\<exists>i < H * W. cm i"
    then obtain i where i: "i < H * W" "cm i" by blast
    then have "0 < W" by (cases W) auto
    with i have "i div W < H" "i mod W < W" "cm (i div W * W + i mod W)"
      by (simp_all add: less_mult_imp_div_less)
    then show "\<exists>p < H. \<exists>q < W. M p q" unfolding M by blast
  next
    assume "\<exists>p < H. \<exists>q < W. M p q"
    then obtain p q where pq: "p < H" "q < W" "cm (p * W + q)" unfolding M by blast
    then have "p * W + q < H * W" by (simp add: scan_index)
    with pq show "\<exists>i < H * W. cm i" by blast
  qed
  from execute_4d [OF x sh R C wf] obtain nd h4 where
    ex: "execute (Some s) (Some rs) h =
            apfst Inr (new_data_and_metadata nd (take 2 (dimensional_calibrations x))
                         (intensity_calibration x) h4)"
    and br: "if \<exists>i < H * W. cm i
              then nd = \<lparr>shape = [R, C], buf = Suc (length (nums h))\<rparr> \<and>
                   nums h4 = nums h @
                     [concat (map (\<lambda>k. map (\<lambda>j. xs ! (k * (H * W) + j)) (filter cm [0..<H * W]))
                                  [0..<R * C]),
                      map (\<lambda>k. sum_list (map (\<lambda>j. xs ! (k * (H * W) + j)) (filter cm [0..<H * W])))
                          [0..<R * C]]
              else nd = \<lparr>shape = [R, C], buf = length (nums h)\<rparr> \<and>
                   nums h4 = nums h @
                     [map (\<lambda>k. sum_list (take (H * W) (drop (k * (H * W)) xs))) [0..<R * C]]"
    unfolding cm_def xs_def by blast
  define res where "res = fst (new_data_and_metadata nd (take 2 (dimensional_calibrations x))
                         (intensity_calibration x) h4)"
  define h' where "h' = snd (new_data_and_metadata nd (take 2 (dimensional_calibrations x))
                         (intensity_calibration x) h4)"
  have run: "execute (Some s) (Some rs) h = (Inr res, h')"
    unfolding ex res_def h'_def by (simp add: apfst_def map_prod_def split_beta)
  have dres: "data res = nd" and nh: "nums h' = nums h4"
    unfolding res_def h'_def by (simp_all add: new_data_and_metadata_explicit)
  have shp: "shape (data res) = [R, C]" using br dres by (auto split: if_splits)
  have vals: "item (nums h') (data res) [r, c] =
                (if \<exists>p < H. \<exists>q < W. M p q
                 then \<Sum>(p, q) \<in> {(p, q). p < H \<and> q < W \<and> M p q}. item (nums h) (data x) [r, c, p, q]
                 else \<Sum>(p, q) \<in> {(p, q). p < H \<and> q < W}. item (nums h) (data x) [r, c, p, q])"
    if rc: "r < R" "c < C" for r c
  proof -
    let ?k = "r * C + c"
    have k: "?k < R * C" using rc by (rule scan_index)
    show ?thesis
    proof (cases "\<exists>i < H * W. cm i")
      case True
      with br have nd: "nd = \<lparr>shape = [R, C], buf = Suc (length (nums h))\<rparr>"
        and n4: "nums h4 = nums h @
                     [concat (map (\<lambda>k. map (\<lambda>j. xs ! (k * (H * W) + j)) (filter cm [0..<H * W]))
                                  [0..<R * C]),
                      map (\<lambda>k. sum_list (map (\<lambda>j. xs ! (k * (H * W) + j)) (filter cm [0..<H * W])))
                          [0..<R * C]]" by simp_all
      have "item (nums h') (data res) [r, c] =
              sum_list (map (\<lambda>j. xs ! (?k * (H * W) + j)) (filter cm [0..<H * W]))"
        unfolding item_def dres nh nd n4 using k by (simp add: nth_append)
      also have "\<dots> = sum (\<lambda>j. xs ! (?k * (H * W) + j)) {j. j < H * W \<and> cm j}"
        by (rule sum_list_filter_upt)
      also have "\<dots> = (\<Sum>(p, q) \<in> {(p, q). p < H \<and> q < W \<and> cm (p * W + q)}.
                           xs ! (?k * (H * W) + (p * W + q)))"
        by (rule sum_flat_pairs)
      finally have e: "item (nums h') (data res) [r, c] =
          (\<Sum>(p, q) \<in> {(p, q). p < H \<and> q < W \<and> M p q}. item (nums h) (data x) [r, c, p, q])"
        by (simp add: it M)
      have yM: "\<exists>p < H. \<exists>q < W. M p q" using True anyM by simp
      show ?thesis using e by (simp only: yM if_True)
    next
      case False
      with br have nd: "nd = \<lparr>shape = [R, C], buf = length (nums h)\<rparr>"
        and n4: "nums h4 = nums h @
                     [map (\<lambda>k. sum_list (take (H * W) (drop (k * (H * W)) xs))) [0..<R * C]]"
        by simp_all
      have bound: "?k * (H * W) + H * W \<le> length xs"
        unfolding len using k by (rule chunk_bound)
      have "item (nums h') (data res) [r, c] = sum_list (take (H * W) (drop (?k * (H * W)) xs))"
        unfolding item_def dres nh nd n4 using k by (simp add: nth_append)
      also have "\<dots> = (\<Sum>j < H * W. xs ! (?k * (H * W) + j))"
        by (rule sum_list_take_drop [OF bound])
      also have "\<dots> = sum (\<lambda>j. xs ! (?k * (H * W) + j)) {j. j < H * W \<and> True}"
        by (simp add: lessThan_def)
      also have "\<dots> = (\<Sum>(p, q) \<in> {(p, q). p < H \<and> q < W \<and> True}.
                           xs ! (?k * (H * W) + (p * W + q)))"
        by (rule sum_flat_pairs)
      finally have e: "item (nums h') (data res) [r, c] =
          (\<Sum>(p, q) \<in> {(p, q). p < H \<and> q < W}. item (nums h) (data x) [r, c, p, q])"
        by (simp add: it)
      have nM: "\<not> (\<exists>p < H. \<exists>q < W. M p q)" using False anyM by simp
      show ?thesis using e by (simp only: nM if_False)
    qed
  qed
  from run shp vals show ?thesis by blast
qed

section \<open>The observable result on a 4D source\<close>

lemma execute_4d_empty:
  assumes "xdata s = Some x" and "shape (data x) = [R, C, H, W]" and "R = 0 \<or> C = 0"
  shows "execute (Some s) (Some rs) h = (Inl (ValueError ''cannot reshape array''), h)"
  unfolding execute_def using assms(1) np_reshape_4d_empty [OF assms(2,3)]
  by (simp add: Let_def)

lemma result_value_new:
  "result_value (apfst Inr (new_data_and_metadata nd dcs ic h4)) =
     Inr (shape nd, nums h4 ! buf nd,
          map ((!) (foldl (\<lambda>l c. l @ [l ! c]) (cals h4) (dcs @ [ic])))
              [length (cals h4)..<length (cals h4) + length dcs],
          foldl (\<lambda>l c. l @ [l ! c]) (cals h4) (dcs @ [ic]) ! (length (cals h4) + length dcs))"
  by (simp add: result_value_def new_data_and_metadata_explicit)

lemma result_value_4d:
  fixes h :: "'a::monoid_add store"
  assumes x: "xdata s = Some x" and sh: "shape (data x) = [R, C, H, W]"
    and R: "0 < R" and C: "0 < C"
    and wf: "\<forall>g \<in> set rs. wf_mask h [H, W] g"
  defines "cm \<equiv> \<lambda>i. \<exists>g \<in> set rs. bools h ! buf (get_mask g [H, W]) ! i"
    and "xs \<equiv> nums h ! buf (data x)"
    and "dcs \<equiv> take 2 (dimensional_calibrations x)"
  defines "cl \<equiv> foldl (\<lambda>l c. l @ [l ! c]) (cals h) (dcs @ [intensity_calibration x])"
  shows "result_value (execute (Some s) (Some rs) h) =
     Inr ([R, C],
          (if \<exists>i < H * W. cm i
           then map (\<lambda>k. sum_list (map (\<lambda>j. xs ! (k * (H * W) + j)) (filter cm [0..<H * W])))
                    [0..<R * C]
           else map (\<lambda>k. sum_list (take (H * W) (drop (k * (H * W)) xs))) [0..<R * C]),
          map ((!) cl) [length (cals h)..<length (cals h) + length dcs],
          cl ! (length (cals h) + length dcs))"
proof -
  from execute_4d [OF x sh R C wf] obtain nd h4 where
    ex: "execute (Some s) (Some rs) h =
            apfst Inr (new_data_and_metadata nd dcs (intensity_calibration x) h4)"
    and c4: "cals h4 = cals h"
    and br: "if \<exists>i < H * W. cm i
              then nd = \<lparr>shape = [R, C], buf = Suc (length (nums h))\<rparr> \<and>
                   nums h4 = nums h @
                     [concat (map (\<lambda>k. map (\<lambda>j. xs ! (k * (H * W) + j)) (filter cm [0..<H * W]))
                                  [0..<R * C]),
                      map (\<lambda>k. sum_list (map (\<lambda>j. xs ! (k * (H * W) + j)) (filter cm [0..<H * W])))
                          [0..<R * C]]
              else nd = \<lparr>shape = [R, C], buf = length (nums h)\<rparr> \<and>
                   nums h4 = nums h @
                     [map (\<lambda>k. sum_list (take (H * W) (drop (k * (H * W)) xs))) [0..<R * C]]"
    unfolding cm_def xs_def dcs_def by blast
  show ?thesis
  proof (cases "\<exists>i < H * W. cm i")
    case True
    with br have "shape nd = [R, C]"
      "nums h4 ! buf nd =
         map (\<lambda>k. sum_list (map (\<lambda>j. xs ! (k * (H * W) + j)) (filter cm [0..<H * W]))) [0..<R * C]"
      by (simp_all add: nth_append)
    then show ?thesis unfolding ex result_value_new c4 cl_def if_P [OF True] by simp
  next
    case False
    with br have "shape nd = [R, C]"
      "nums h4 ! buf nd = map (\<lambda>k. sum_list (take (H * W) (drop (k * (H * W)) xs))) [0..<R * C]"
      by (simp_all add: nth_append)
    then show ?thesis unfolding ex result_value_new c4 cl_def if_not_P [OF False] by simp
  qed
qed

section \<open>The steps of execute on any source\<close>

lemma prefix_foldl_copy: "prefix l0 (foldl (\<lambda>l c. l @ [l ! c]) l0 cs)"
proof (induction cs arbitrary: l0)
  case Nil
  then show ?case by simp
next
  case (Cons c cs)
  have "prefix l0 (l0 @ [l0 ! c])" by simp
  also have "prefix (l0 @ [l0 ! c]) (foldl (\<lambda>l c. l @ [l ! c]) (l0 @ [l0 ! c]) cs)"
    by (rule Cons.IH)
  finally show ?case by simp
qed

text \<open>The reduction of lines 71-78, whatever the arrays are: it only allocates numeric
  buffers, and its result is the last one allocated.\<close>

lemma reduction_frame:
  fixes h2 :: "'a::monoid_add store"
  assumes "(if np_any m h2
            then case index_last d (true_indices m h2) h2 of
                   (Inl e, h3) \<Rightarrow> (Inl e, h3)
                 | (Inr selected, h3) \<Rightarrow> np_sum selected h3
            else np_sum d h2) = (rr, h4)"
  shows "bools h4 = bools h2 \<and> cals h4 = cals h2 \<and> prefix (nums h2) (nums h4)
         \<and> (\<forall>nd. rr = Inr nd \<longrightarrow> length (nums h2) \<le> buf nd \<and> buf nd < length (nums h4))"
proof (cases "np_any m h2")
  case False
  with assms have s: "np_sum d h2 = (rr, h4)" by simp
  from np_sum_frame [OF s] show ?thesis
    by (metis length_append_singleton lessI order_refl)
next
  case True
  obtain r3 h3 where il: "index_last d (true_indices m h2) h2 = (r3, h3)"
    by (cases "index_last d (true_indices m h2) h2")
  note f3 = index_last_frame [OF il]
  show ?thesis
  proof (cases r3)
    case (Inl e)
    with assms True il have "rr = Inl e" "h4 = h3" by simp_all
    with f3 show ?thesis by simp
  next
    case (Inr sel)
    with assms True il have s: "np_sum sel h3 = (rr, h4)" by simp
    note f4 = np_sum_frame [OF s]
    from f3 have le: "length (nums h2) \<le> length (nums h3)" by (auto dest: prefix_length_le)
    have "\<forall>nd. rr = Inr nd \<longrightarrow> length (nums h2) \<le> buf nd \<and> buf nd < length (nums h4)"
      using f4 le by (metis length_append_singleton lessI)
    moreover have "prefix (nums h2) (nums h4)"
      using f3 f4 by (blast intro: prefix_order.trans)
    ultimately show ?thesis using f3 f4 by simp
  qed
qed

lemma execute_steps:
  fixes h :: "'a::monoid_add store"
  assumes ex: "execute (Some s) (Some rs) h = (r, h')" and x: "xdata s = Some x"
  shows "(\<exists>e. r = Inl e \<and> cals h' = cals h \<and> prefix (nums h) (nums h') \<and> prefix (bools h) (bools h'))
       \<or> (\<exists>res nd h4. r = Inr res
             \<and> new_data_and_metadata nd (take 2 (dimensional_calibrations x))
                  (intensity_calibration x) h4 = (res, h')
             \<and> cals h4 = cals h \<and> prefix (nums h) (nums h4) \<and> prefix (bools h) (bools h4)
             \<and> length (nums h) \<le> buf nd \<and> buf nd < length (nums h4))"
proof (cases "np_reshape (data x) (map int (take 2 (shape (data x))) @ [- 1])")
  case (Inl e)
  with ex x have "r = Inl e" "h' = h" by (simp_all add: execute_def)
  then show ?thesis by simp
next
  case (Inr d)
  let ?s = "drop 2 (shape (data x))"
  obtain m0 h1 where z: "np_zeros ?s h = (m0, h1)" by (cases "np_zeros ?s h")
  then have f1: "nums h1 = nums h" "cals h1 = cals h" "prefix (bools h) (bools h1)"
    by (auto simp: np_zeros_def new_bool_def)
  obtain rl h2 where lp: "mask_loop rs ?s m0 h1 = (rl, h2)" by (cases "mask_loop rs ?s m0 h1")
  from mask_loop_frame [OF lp] f1
  have f2: "nums h2 = nums h" "cals h2 = cals h" "prefix (bools h) (bools h2)"
    by (auto intro: prefix_order.trans)
  show ?thesis
  proof (cases rl)
    case (Inl e)
    with ex x Inr z lp have "r = Inl e" "h' = h2" by (simp_all add: execute_def Let_def)
    with f2 show ?thesis by simp
  next
    case rlr: (Inr m)
    obtain rr h4 where red:
      "(if np_any m h2
        then case index_last d (true_indices m h2) h2 of
               (Inl e, h3) \<Rightarrow> (Inl e, h3)
             | (Inr selected, h3) \<Rightarrow> np_sum selected h3
        else np_sum d h2) = (rr, h4)"
      by (cases "if np_any m h2
        then case index_last d (true_indices m h2) h2 of
               (Inl e, h3) \<Rightarrow> (Inl e, h3)
             | (Inr selected, h3) \<Rightarrow> np_sum selected h3
        else np_sum d h2")
    from reduction_frame [OF red] f2
    have f4: "bools h4 = bools h2" "cals h4 = cals h" "prefix (nums h) (nums h4)"
      and nb: "\<And>nd. rr = Inr nd \<Longrightarrow> length (nums h) \<le> buf nd \<and> buf nd < length (nums h4)"
      by auto
    have ex': "execute (Some s) (Some rs) h =
      (case (rr, h4) of
         (Inl e, h4) \<Rightarrow> (Inl e, h4)
       | (Inr new_data, h4) \<Rightarrow>
           apfst Inr (new_data_and_metadata new_data
                        (take 2 (dimensional_calibrations x))
                        (intensity_calibration x) h4))"
      unfolding red [symmetric] execute_def using x Inr z lp rlr by (simp add: Let_def)
    show ?thesis
    proof (cases rr)
      case (Inl e)
      with ex ex' have "r = Inl e" "h' = h4" by simp_all
      with f4 f2 show ?thesis by simp
    next
      case (Inr nd)
      obtain res hn where n: "new_data_and_metadata nd (take 2 (dimensional_calibrations x))
                        (intensity_calibration x) h4 = (res, hn)"
        by (cases "new_data_and_metadata nd (take 2 (dimensional_calibrations x))
                        (intensity_calibration x) h4")
      with ex ex' Inr have "r = Inr res" "h' = hn" by simp_all
      with n nb [OF Inr] f4 f2
      have "r = Inr res
             \<and> new_data_and_metadata nd (take 2 (dimensional_calibrations x))
                  (intensity_calibration x) h4 = (res, h')
             \<and> cals h4 = cals h \<and> prefix (nums h) (nums h4) \<and> prefix (bools h) (bools h4)
             \<and> length (nums h) \<le> buf nd \<and> buf nd < length (nums h4)"
        by simp
      then show ?thesis by blast
    qed
  qed
qed

lemma map_nth_append_upt:
  assumes "k \<le> length ys"
  shows "map ((!) (l0 @ ys)) [length l0..<length l0 + k] = take k ys"
  using assms by (auto intro!: nth_equalityI simp: nth_append)

lemma copied_calibrations:
  assumes "list_all (\<lambda>c. c < length l0) dcs" and "ic < length l0"
  defines "cl \<equiv> foldl (\<lambda>l c. l @ [l ! c]) l0 (dcs @ [ic])"
  shows "map ((!) cl) [length l0..<length l0 + length dcs] = map ((!) l0) dcs"
    and "cl ! (length l0 + length dcs) = l0 ! ic"
    and "length cl = Suc (length l0 + length dcs)"
proof -
  have "\<forall>c \<in> set (dcs @ [ic]). c < length l0" using assms(1,2) by (auto simp: list_all_iff)
  then have cl: "cl = l0 @ map ((!) l0) (dcs @ [ic])"
    unfolding cl_def by (rule foldl_copy_wf)
  show "map ((!) cl) [length l0..<length l0 + length dcs] = map ((!) l0) dcs"
    unfolding cl by (subst map_nth_append_upt) simp_all
  show "cl ! (length l0 + length dcs) = l0 ! ic"
    unfolding cl by (simp add: nth_append)
  show "length cl = Suc (length l0 + length dcs)"
    unfolding cl by simp
qed

section \<open>Outcomes depend on the values of the inputs only\<close>

lemma np_logical_or_cong:
  assumes "shape a1 = shape a2" "shape b1 = shape b2"
    and "bools h1 ! buf a1 = bools h2 ! buf a2" "bools h1 ! buf b1 = bools h2 ! buf b2"
  shows "mask_value (np_logical_or a1 b1 h1) = mask_value (np_logical_or a2 b2 h2)"
  using assms
  by (simp add: mask_value_def np_logical_or_def new_bool_def split: option.splits)

lemma mask_loop_cong:
  assumes "list_all2 (same_mask h01 h02 s) rs1 rs2"
    and "prefix (bools h01) (bools h1)" "prefix (bools h02) (bools h2)"
    and "shape m1 = shape m2" "bools h1 ! buf m1 = bools h2 ! buf m2"
  shows "mask_value (mask_loop rs1 s m1 h1) = mask_value (mask_loop rs2 s m2 h2)"
  using assms
proof (induction rs1 rs2 arbitrary: m1 m2 h1 h2 rule: list_all2_induct)
  case Nil
  then show ?case by (simp add: mask_value_def)
next
  case (Cons g1 rs1 g2 rs2)
  let ?b1 = "get_mask g1 s" and ?b2 = "get_mask g2 s"
  from Cons.hyps(1) have sb: "shape ?b1 = shape ?b2"
    and l1: "buf ?b1 < length (bools h01)" and l2: "buf ?b2 < length (bools h02)"
    and cb: "bools h01 ! buf ?b1 = bools h02 ! buf ?b2"
    by (simp_all add: same_mask_def)
  have rd: "bools h1 ! buf ?b1 = bools h2 ! buf ?b2"
    using prefix_nth [OF Cons.prems(1) l1] prefix_nth [OF Cons.prems(2) l2] cb by simp
  obtain r1 k1 where s1: "np_logical_or m1 ?b1 h1 = (r1, k1)" by (cases "np_logical_or m1 ?b1 h1")
  obtain r2 k2 where s2: "np_logical_or m2 ?b2 h2 = (r2, k2)" by (cases "np_logical_or m2 ?b2 h2")
  have v: "mask_value (r1, k1) = mask_value (r2, k2)"
    using np_logical_or_cong [OF Cons.prems(3) sb Cons.prems(4) rd] s1 s2 by simp
  have p1: "prefix (bools h01) (bools k1)"
    using np_logical_or_frame [OF s1] Cons.prems(1) by (auto intro: prefix_order.trans)
  have p2: "prefix (bools h02) (bools k2)"
    using np_logical_or_frame [OF s2] Cons.prems(2) by (auto intro: prefix_order.trans)
  show ?case
  proof (cases r1)
    case (Inl e)
    with v have "r2 = Inl e" by (cases r2) (simp_all add: mask_value_def)
    with Inl s1 s2 show ?thesis by (simp add: mask_value_def)
  next
    case (Inr n1)
    with v obtain n2 where r2: "r2 = Inr n2" by (cases r2) (simp_all add: mask_value_def)
    with v Inr have e: "shape n1 = shape n2" "bools k1 ! buf n1 = bools k2 ! buf n2"
      by (simp_all add: mask_value_def)
    from Cons.IH [OF p1 p2 e] Inr r2 s1 s2 show ?thesis by simp
  qed
qed

lemma index_last_cong:
  assumes "shape d1 = shape d2" "nums h1 ! buf d1 = nums h2 ! buf d2"
  shows "num_value (index_last d1 ind h1) = num_value (index_last d2 ind h2)"
  using assms by (simp add: num_value_def index_last_def new_num_def Let_def)

lemma np_sum_cong:
  fixes h1 h2 :: "'a::monoid_add store"
  assumes "shape d1 = shape d2" "nums h1 ! buf d1 = nums h2 ! buf d2"
  shows "num_value (np_sum d1 h1) = num_value (np_sum d2 h2)"
  using assms by (simp add: num_value_def np_sum_def new_num_def Let_def)

lemma reduction_cong:
  fixes h1 h2 :: "'a::monoid_add store"
  assumes m: "shape m1 = shape m2" "bools h1 ! buf m1 = bools h2 ! buf m2"
    and d: "shape d1 = shape d2" "nums h1 ! buf d1 = nums h2 ! buf d2"
  shows "num_value (if np_any m1 h1
            then case index_last d1 (true_indices m1 h1) h1 of
                   (Inl e, h3) \<Rightarrow> (Inl e, h3)
                 | (Inr selected, h3) \<Rightarrow> np_sum selected h3
            else np_sum d1 h1)
       = num_value (if np_any m2 h2
            then case index_last d2 (true_indices m2 h2) h2 of
                   (Inl e, h3) \<Rightarrow> (Inl e, h3)
                 | (Inr selected, h3) \<Rightarrow> np_sum selected h3
            else np_sum d2 h2)"
proof -
  have any: "np_any m1 h1 = np_any m2 h2" using m by (simp add: np_any_def)
  have ind: "true_indices m1 h1 = true_indices m2 h2" using m by (simp add: true_indices_def)
  show ?thesis
  proof (cases "np_any m2 h2")
    case False
    with any show ?thesis by (simp add: np_sum_cong [OF d])
  next
    case True
    let ?ind = "true_indices m2 h2"
    obtain r1 k1 where s1: "index_last d1 ?ind h1 = (r1, k1)" by (cases "index_last d1 ?ind h1")
    obtain r2 k2 where s2: "index_last d2 ?ind h2 = (r2, k2)" by (cases "index_last d2 ?ind h2")
    have v: "num_value (r1, k1) = num_value (r2, k2)"
      using index_last_cong [OF d, of ?ind] s1 s2 by simp
    show ?thesis
    proof (cases r1)
      case (Inl e)
      with v have "r2 = Inl e" by (cases r2) (simp_all add: num_value_def)
      with Inl True any ind s1 s2 show ?thesis by (simp add: num_value_def)
    next
      case (Inr a1)
      with v obtain a2 where r2: "r2 = Inr a2" by (cases r2) (simp_all add: num_value_def)
      with v Inr have e: "shape a1 = shape a2" "nums k1 ! buf a1 = nums k2 ! buf a2"
        by (simp_all add: num_value_def)
      from np_sum_cong [OF e] Inr r2 True any ind s1 s2 show ?thesis by simp
    qed
  qed
qed

lemma np_reshape_cong:
  assumes "shape a1 = shape a2"
  shows "(\<exists>e. np_reshape a1 ns = Inl e \<and> np_reshape a2 ns = Inl e)
       \<or> (\<exists>s. np_reshape a1 ns = Inr \<lparr>shape = s, buf = buf a1\<rparr>
              \<and> np_reshape a2 ns = Inr \<lparr>shape = s, buf = buf a2\<rparr>)"
  unfolding np_reshape_def assms
  by (cases "fix_unknown_dimension ns (prod_list (shape a2))") simp_all

lemma result_value_Inl: "result_value (Inl e, h) = Inl e"
  by (simp add: result_value_def)

text \<open>The outcome of execute once the reshape has succeeded, in three steps.\<close>

lemma execute_after_reshape:
  fixes h :: "'a::monoid_add store"
  assumes "xdata s = Some x"
    and "np_reshape (data x) (map int (take 2 (shape (data x))) @ [- 1]) = Inr d"
    and "np_zeros (drop 2 (shape (data x))) h = (m0, h1)"
    and "mask_loop rs (drop 2 (shape (data x))) m0 h1 = (rl, h2)"
  shows "execute (Some s) (Some rs) h =
     (case rl of
        Inl e \<Rightarrow> (Inl e, h2)
      | Inr m \<Rightarrow>
         (case (if np_any m h2
                then case index_last d (true_indices m h2) h2 of
                       (Inl e, h3) \<Rightarrow> (Inl e, h3)
                     | (Inr selected, h3) \<Rightarrow> np_sum selected h3
                else np_sum d h2) of
            (Inl e, h4) \<Rightarrow> (Inl e, h4)
          | (Inr new_data, h4) \<Rightarrow>
              apfst Inr (new_data_and_metadata new_data
                           (take 2 (dimensional_calibrations x))
                           (intensity_calibration x) h4)))"
  unfolding execute_def using assms by (simp add: Let_def split: sum.splits)

section \<open>The example objects are well formed\<close>

lemma ex_wf_source: "wf_source ex_store (data (ex_xdata [2, 2, 2, 2] 0))"
  by (simp add: wf_source_def ex_store_def ex_xdata_def)

lemma ex_wf_mask: "k < 3 \<Longrightarrow> wf_mask ex_store [2, 2] (ex_graphic k)"
  by (auto simp add: wf_mask_def ex_store_def ex_graphic_def less_Suc_eq numeral_3_eq_3)

lemma ex_wf_mask_pixel: "wf_mask ex_store [1, 1] (ex_graphic 3)"
  by (simp add: wf_mask_def ex_store_def ex_graphic_def)

lemma ex_wf_source_empty: "prod_list s = 0 \<Longrightarrow> wf_source ex_store (data (ex_xdata s 1))"
  by (simp add: wf_source_def ex_store_def ex_xdata_def)

lemma ex_run:
  "execute (Some (ex_src [2, 2, 2, 2] 0)) (Some [ex_graphic 0, ex_graphic 2]) ex_store =
     (Inr \<lparr>data = \<lparr>shape = [2, 2], buf = 3\<rparr>, dimensional_calibrations = [5, 6],
           intensity_calibration = 7\<rparr>,
      ex_store\<lparr>nums := nums ex_store @ [[0, 1, 2, 4, 5, 6, 8, 9, 10, 12, 13, 14], [3, 15, 27, 39]],
               bools := bools ex_store @ [[False, False, False, False],
                          [True, False, False, False], [True, True, True, False]],
               cals := cals ex_store @ [\<lparr>offset = 0, scale = 1, units = ''nm''\<rparr>,
                          \<lparr>offset = 1, scale = 2, units = ''nm''\<rparr>,
                          \<lparr>offset = 0, scale = 1, units = ''counts''\<rparr>]\<rparr>)"
  by code_simp

lemma ex_wf_calibrations: "wf_calibrations ex_store (ex_xdata [2, 2, 2, 2] 0)"
  by (simp add: wf_calibrations_def ex_store_def ex_xdata_def upt_conv_Cons)

section \<open>Sum over the selected pixels\<close>

text \<open>
  Claim C1, as amended. For a 4D source of shape \<open>(R, C, H, W)\<close> with \<open>R \<ge> 1\<close> and
  \<open>C \<ge> 1\<close>, and a non-empty list of masks of shape \<open>(H, W)\<close> whose union has a true
  entry, execute returns a result of shape \<open>(R, C)\<close> whose element \<open>[r, c]\<close> is the sum
  of \<open>source[r, c, p, q]\<close> over exactly the pixels \<open>(p, q)\<close> at which some mask is true.
  Elements are addressed in C order (\<open>item\<close>), so pixel \<open>(p, q)\<close> is flat index
  \<open>p * W + q\<close> of the flattened collection plane.
\<close>

theorem execute_masked_sum:
  fixes h :: "'a::comm_monoid_add store"
  assumes "xdata s = Some x" and "shape (data x) = [R, C, H, W]"
    and "0 < R" and "0 < C"
    and "wf_source h (data x)"
    and "rs \<noteq> []" and "\<forall>g \<in> set rs. wf_mask h [H, W] g"
    and "\<exists>p < H. \<exists>q < W. \<exists>g \<in> set rs. item (bools h) (get_mask g [H, W]) [p, q]"
  shows "\<exists>res h'. execute (Some s) (Some rs) h = (Inr res, h') \<and> shape (data res) = [R, C]
          \<and> (\<forall>r < R. \<forall>c < C. item (nums h') (data res) [r, c] =
                (\<Sum>(p, q) \<in> {(p, q). p < H \<and> q < W
                                  \<and> (\<exists>g \<in> set rs. item (bools h) (get_mask g [H, W]) [p, q])}.
                    item (nums h) (data x) [r, c, p, q]))"
  using execute_4d_items [OF assms(1-5) assms(7)] assms(8) by (simp only: if_True)

text \<open>The theorem at the (2,2,2,2) example with two masks.\<close>

theorem execute_masked_sum_witness:
  "\<exists>res h'. execute (Some (ex_src [2, 2, 2, 2] 0)) (Some [ex_graphic 0, ex_graphic 2]) ex_store
               = (Inr res, h') \<and> shape (data res) = [2, 2]
          \<and> (\<forall>r < 2. \<forall>c < 2. item (nums h') (data res) [r, c] =
                (\<Sum>(p, q) \<in> {(p, q). p < 2 \<and> q < 2
                       \<and> (\<exists>g \<in> set [ex_graphic 0, ex_graphic 2].
                             item (bools ex_store) (get_mask g [2, 2]) [p, q])}.
                    item (nums ex_store) (data (ex_xdata [2, 2, 2, 2] 0)) [r, c, p, q]))"
proof (rule execute_masked_sum)
  show "xdata (ex_src [2, 2, 2, 2] 0) = Some (ex_xdata [2, 2, 2, 2] 0)" by (simp add: ex_src_def)
  show "shape (data (ex_xdata [2, 2, 2, 2] 0)) = [2, 2, 2, 2]" by (simp add: ex_xdata_def)
  show "wf_source ex_store (data (ex_xdata [2, 2, 2, 2] 0))" by (rule ex_wf_source)
  show "\<forall>g \<in> set [ex_graphic 0, ex_graphic 2]. wf_mask ex_store [2, 2] g"
    by (simp add: ex_wf_mask)
  show "\<exists>p < 2. \<exists>q < 2. \<exists>g \<in> set [ex_graphic 0, ex_graphic 2].
           item (bools ex_store) (get_mask g [2, 2]) [p, q]"
    by (intro exI [of _ 0] conjI bexI [of _ "ex_graphic 0"])
       (simp_all add: item_def ex_store_def ex_graphic_def)
qed simp_all

text \<open>C1 as stated (every 4D source) fails when the scan plane is empty: for shape
  \<open>(0, 2, 2, 2)\<close> the reshape to \<open>(0, 2, -1)\<close> raises ValueError, and execute returns
  no result.\<close>

theorem execute_masked_sum_empty_scan:
  "shape (data (ex_xdata [0, 2, 2, 2] 1)) = [0, 2, 2, 2]
   \<and> wf_source ex_store (data (ex_xdata [0, 2, 2, 2] 1))
   \<and> wf_mask ex_store [2, 2] (ex_graphic 0) \<and> wf_mask ex_store [2, 2] (ex_graphic 2)
   \<and> item (bools ex_store) (get_mask (ex_graphic 0) [2, 2]) [0, 0]
   \<and> fst (execute (Some (ex_src [0, 2, 2, 2] 1)) (Some [ex_graphic 0, ex_graphic 2]) ex_store)
       = Inl (ValueError ''cannot reshape array'')"
proof (intro conjI)
  show "fst (execute (Some (ex_src [0, 2, 2, 2] 1)) (Some [ex_graphic 0, ex_graphic 2]) ex_store)
       = Inl (ValueError ''cannot reshape array'')"
    by code_simp
  show "wf_source ex_store (data (ex_xdata [0, 2, 2, 2] 1))"
    by (simp add: wf_source_def ex_store_def ex_xdata_def)
  show "wf_mask ex_store [2, 2] (ex_graphic 0)" "wf_mask ex_store [2, 2] (ex_graphic 2)"
    by (simp_all add: ex_wf_mask)
  show "item (bools ex_store) (get_mask (ex_graphic 0) [2, 2]) [0, 0]"
    by (simp add: item_def ex_store_def ex_graphic_def)
qed (simp add: ex_xdata_def)

section \<open>No mask: the full-frame sum\<close>

text \<open>
  Claim C2, as amended. For a 4D source of shape \<open>(R, C, H, W)\<close> with \<open>R \<ge> 1\<close> and
  \<open>C \<ge> 1\<close> and the empty mask list, execute returns a result of shape \<open>(R, C)\<close> whose
  element \<open>[r, c]\<close> is the sum of all \<open>H * W\<close> elements \<open>source[r, c, p, q]\<close>.
\<close>

theorem execute_no_masks_full_sum:
  fixes h :: "'a::comm_monoid_add store"
  assumes "xdata s = Some x" and "shape (data x) = [R, C, H, W]"
    and "0 < R" and "0 < C"
    and "wf_source h (data x)"
  shows "\<exists>res h'. execute (Some s) (Some []) h = (Inr res, h') \<and> shape (data res) = [R, C]
          \<and> (\<forall>r < R. \<forall>c < C. item (nums h') (data res) [r, c] =
                (\<Sum>(p, q) \<in> {(p, q). p < H \<and> q < W}. item (nums h) (data x) [r, c, p, q]))"
  using execute_4d_items [OF assms, of "[]"] by simp

text \<open>The theorem at the (2,2,2,2) example.\<close>

theorem execute_no_masks_full_sum_witness:
  "\<exists>res h'. execute (Some (ex_src [2, 2, 2, 2] 0)) (Some []) ex_store = (Inr res, h')
          \<and> shape (data res) = [2, 2]
          \<and> (\<forall>r < 2. \<forall>c < 2. item (nums h') (data res) [r, c] =
                (\<Sum>(p, q) \<in> {(p, q). p < 2 \<and> q < 2}.
                    item (nums ex_store) (data (ex_xdata [2, 2, 2, 2] 0)) [r, c, p, q]))"
proof (rule execute_no_masks_full_sum)
  show "xdata (ex_src [2, 2, 2, 2] 0) = Some (ex_xdata [2, 2, 2, 2] 0)" by (simp add: ex_src_def)
  show "shape (data (ex_xdata [2, 2, 2, 2] 0)) = [2, 2, 2, 2]" by (simp add: ex_xdata_def)
  show "wf_source ex_store (data (ex_xdata [2, 2, 2, 2] 0))" by (rule ex_wf_source)
qed simp_all

text \<open>C2 as stated fails for a source of shape \<open>(0, 1, 1, 1)\<close>: ValueError, no
  result.\<close>

theorem execute_no_masks_empty_scan:
  "shape (data (ex_xdata [0, 1, 1, 1] 1)) = [0, 1, 1, 1]
   \<and> wf_source ex_store (data (ex_xdata [0, 1, 1, 1] 1))
   \<and> fst (execute (Some (ex_src [0, 1, 1, 1] 1)) (Some []) ex_store)
       = Inl (ValueError ''cannot reshape array'')"
proof (intro conjI)
  show "fst (execute (Some (ex_src [0, 1, 1, 1] 1)) (Some []) ex_store)
       = Inl (ValueError ''cannot reshape array'')"
    by code_simp
  show "wf_source ex_store (data (ex_xdata [0, 1, 1, 1] 1))"
    by (rule ex_wf_source_empty) simp
qed (simp add: ex_xdata_def)

section \<open>A mask of one pixel\<close>

text \<open>
  Claim C5, as amended. For a 4D source of shape \<open>(R, C, H, W)\<close> with \<open>R \<ge> 1\<close> and
  \<open>C \<ge> 1\<close> and a single mask that is true at exactly the pixel \<open>(h0, w0)\<close>, execute
  returns a result with \<open>result[r, c] = source[r, c, h0, w0]\<close> for all \<open>r, c\<close>.
\<close>

theorem execute_single_pixel:
  fixes h :: "'a::comm_monoid_add store"
  assumes "xdata s = Some x" and "shape (data x) = [R, C, H, W]"
    and "0 < R" and "0 < C"
    and "wf_source h (data x)"
    and "wf_mask h [H, W] g"
    and "h0 < H" and "w0 < W"
    and "\<forall>p < H. \<forall>q < W. item (bools h) (get_mask g [H, W]) [p, q] = (p = h0 \<and> q = w0)"
  shows "\<exists>res h'. execute (Some s) (Some [g]) h = (Inr res, h') \<and> shape (data res) = [R, C]
          \<and> (\<forall>r < R. \<forall>c < C. item (nums h') (data res) [r, c]
                                   = item (nums h) (data x) [r, c, h0, w0])"
proof -
  have wf: "\<forall>g' \<in> set [g]. wf_mask h [H, W] g'" using assms(6) by simp
  have sel: "{(p, q). p < H \<and> q < W \<and> (\<exists>g' \<in> set [g]. item (bools h) (get_mask g' [H, W]) [p, q])}
               = {(h0, w0)}"
    using assms(7-9) by auto
  have any: "\<exists>p < H. \<exists>q < W. \<exists>g' \<in> set [g]. item (bools h) (get_mask g' [H, W]) [p, q]"
    using assms(7-9) by auto
  from execute_4d_items [OF assms(1-5) wf] show ?thesis
    unfolding sel by (simp only: any if_True) simp
qed

text \<open>The concrete scenario of the claim: the (2,2,2,2) source filled with 0..15 and the
  mask of pixel (0,0) give \<open>[[0, 4], [8, 12]]\<close>.\<close>

theorem execute_single_pixel_witness:
  "\<exists>res h'. execute (Some (ex_src [2, 2, 2, 2] 0)) (Some [ex_graphic 0]) ex_store = (Inr res, h')
          \<and> shape (data res) = [2, 2]
          \<and> item (nums h') (data res) [0, 0] = 0 \<and> item (nums h') (data res) [0, 1] = 4
          \<and> item (nums h') (data res) [1, 0] = 8 \<and> item (nums h') (data res) [1, 1] = 12"
proof -
  have "\<exists>res h'. execute (Some (ex_src [2, 2, 2, 2] 0)) (Some [ex_graphic 0]) ex_store = (Inr res, h')
          \<and> shape (data res) = [2, 2]
          \<and> (\<forall>r < 2. \<forall>c < 2. item (nums h') (data res) [r, c]
                = item (nums ex_store) (data (ex_xdata [2, 2, 2, 2] 0)) [r, c, 0, 0])"
  proof (rule execute_single_pixel)
    show "xdata (ex_src [2, 2, 2, 2] 0) = Some (ex_xdata [2, 2, 2, 2] 0)" by (simp add: ex_src_def)
    show "shape (data (ex_xdata [2, 2, 2, 2] 0)) = [2, 2, 2, 2]" by (simp add: ex_xdata_def)
    show "wf_source ex_store (data (ex_xdata [2, 2, 2, 2] 0))" by (rule ex_wf_source)
    show "wf_mask ex_store [2, 2] (ex_graphic 0)" by (simp add: ex_wf_mask)
    show "\<forall>p < 2. \<forall>q < 2. item (bools ex_store) (get_mask (ex_graphic 0) [2, 2]) [p, q]
                            = (p = 0 \<and> q = 0)"
      by (auto simp: item_def ex_store_def ex_graphic_def less_Suc_eq numeral_2_eq_2)
  qed simp_all
  then obtain res h' where
    r: "execute (Some (ex_src [2, 2, 2, 2] 0)) (Some [ex_graphic 0]) ex_store = (Inr res, h')"
       "shape (data res) = [2, 2]"
    and v: "\<And>r c. r < 2 \<Longrightarrow> c < 2 \<Longrightarrow> item (nums h') (data res) [r, c]
                = item (nums ex_store) (data (ex_xdata [2, 2, 2, 2] 0)) [r, c, 0, 0]"
    by blast
  have s: "item (nums ex_store) (data (ex_xdata [2, 2, 2, 2] 0)) [0, 0, 0, 0] = 0"
          "item (nums ex_store) (data (ex_xdata [2, 2, 2, 2] 0)) [0, 1, 0, 0] = 4"
          "item (nums ex_store) (data (ex_xdata [2, 2, 2, 2] 0)) [1, 0, 0, 0] = 8"
          "item (nums ex_store) (data (ex_xdata [2, 2, 2, 2] 0)) [1, 1, 0, 0] = 12"
    by (simp_all add: item_def ex_store_def ex_xdata_def)
  have "item (nums h') (data res) [0, 0] = 0" "item (nums h') (data res) [0, 1] = 4"
       "item (nums h') (data res) [1, 0] = 8" "item (nums h') (data res) [1, 1] = 12"
    using v [of 0 0] v [of 0 1] v [of 1 0] v [of 1 1] by (simp_all only: s)
  with r show ?thesis by blast
qed

text \<open>C5 as stated fails for a source of shape \<open>(2, 0, 1, 1)\<close> with the (1,1) mask that
  selects its only pixel: ValueError, no result.\<close>

theorem execute_single_pixel_empty_scan:
  "shape (data (ex_xdata [2, 0, 1, 1] 1)) = [2, 0, 1, 1]
   \<and> wf_source ex_store (data (ex_xdata [2, 0, 1, 1] 1))
   \<and> wf_mask ex_store [1, 1] (ex_graphic 3)
   \<and> item (bools ex_store) (get_mask (ex_graphic 3) [1, 1]) [0, 0]
   \<and> fst (execute (Some (ex_src [2, 0, 1, 1] 1)) (Some [ex_graphic 3]) ex_store)
       = Inl (ValueError ''cannot reshape array'')"
proof (intro conjI)
  show "fst (execute (Some (ex_src [2, 0, 1, 1] 1)) (Some [ex_graphic 3]) ex_store)
       = Inl (ValueError ''cannot reshape array'')"
    by code_simp
  show "item (bools ex_store) (get_mask (ex_graphic 3) [1, 1]) [0, 0]"
    by (simp add: item_def ex_store_def ex_graphic_def)
  show "wf_source ex_store (data (ex_xdata [2, 0, 1, 1] 1))"
    by (rule ex_wf_source_empty) simp
  show "wf_mask ex_store [1, 1] (ex_graphic 3)"
    by (rule ex_wf_mask_pixel)
qed (simp add: ex_xdata_def)

section \<open>Masks that select nothing\<close>

text \<open>
  Claim C3, as amended. For a 4D source of shape \<open>(R, C, H, W)\<close> with \<open>R \<ge> 1\<close> and
  \<open>C \<ge> 1\<close> and a non-empty list of masks of shape \<open>(H, W)\<close> that are all false
  everywhere, execute returns a result of shape \<open>(R, C)\<close> whose element \<open>[r, c]\<close> is the
  sum of all \<open>H * W\<close> elements \<open>source[r, c, p, q]\<close> (not zero), and the outcome has the
  same value as the outcome for the same source and the empty mask list.
\<close>

theorem execute_all_false_masks:
  fixes h :: "'a::comm_monoid_add store"
  assumes "xdata s = Some x" and "shape (data x) = [R, C, H, W]"
    and "0 < R" and "0 < C"
    and "wf_source h (data x)"
    and "rs \<noteq> []" and "\<forall>g \<in> set rs. wf_mask h [H, W] g"
    and "\<forall>g \<in> set rs. \<forall>p < H. \<forall>q < W. \<not> item (bools h) (get_mask g [H, W]) [p, q]"
  shows "\<exists>res h'. execute (Some s) (Some rs) h = (Inr res, h') \<and> shape (data res) = [R, C]
          \<and> (\<forall>r < R. \<forall>c < C. item (nums h') (data res) [r, c] =
                (\<Sum>(p, q) \<in> {(p, q). p < H \<and> q < W}. item (nums h) (data x) [r, c, p, q]))
          \<and> result_value (execute (Some s) (Some rs) h)
                = result_value (execute (Some s) (Some []) h)"
proof -
  have noM: "\<not> (\<exists>p < H. \<exists>q < W. \<exists>g \<in> set rs. item (bools h) (get_mask g [H, W]) [p, q])"
    using assms(8) by blast
  have none: "\<not> (\<exists>i < H * W. \<exists>g \<in> set rs. bools h ! buf (get_mask g [H, W]) ! i)"
  proof
    assume "\<exists>i < H * W. \<exists>g \<in> set rs. bools h ! buf (get_mask g [H, W]) ! i"
    then obtain i g where i: "i < H * W" and g: "g \<in> set rs"
      and t: "bools h ! buf (get_mask g [H, W]) ! i" by blast
    from i have W: "0 < W" by (cases W) auto
    with i have d: "i div W < H" and m: "i mod W < W" by (simp_all add: less_mult_imp_div_less)
    from assms(7) g have "shape (get_mask g [H, W]) = [H, W]" by (simp add: wf_mask_def)
    then have "item (bools h) (get_mask g [H, W]) [i div W, i mod W]
                 = bools h ! buf (get_mask g [H, W]) ! i"
      by (simp add: item_def)
    with assms(8) g d m t show False by blast
  qed
  have e: "\<not> (\<exists>i < H * W. \<exists>g \<in> set []. bools h ! buf (get_mask g [H, W]) ! i)" by simp
  have w0: "\<forall>g \<in> set []. wf_mask h [H, W] g" by simp
  have same: "result_value (execute (Some s) (Some rs) h)
                = result_value (execute (Some s) (Some []) h)"
    unfolding result_value_4d [OF assms(1-4) assms(7)] result_value_4d [OF assms(1-4) w0]
      if_not_P [OF none] if_not_P [OF e] ..
  from execute_4d_items [OF assms(1-5) assms(7)] same show ?thesis
    by (simp only: noM if_False) blast
qed

text \<open>The theorem for the example source and the all-false mask.\<close>

theorem execute_all_false_masks_witness:
  "\<exists>res h'. execute (Some (ex_src [2, 2, 2, 2] 0)) (Some [ex_graphic 1]) ex_store = (Inr res, h')
          \<and> shape (data res) = [2, 2]
          \<and> (\<forall>r < 2. \<forall>c < 2. item (nums h') (data res) [r, c] =
                (\<Sum>(p, q) \<in> {(p, q). p < 2 \<and> q < 2}.
                    item (nums ex_store) (data (ex_xdata [2, 2, 2, 2] 0)) [r, c, p, q]))
          \<and> result_value (execute (Some (ex_src [2, 2, 2, 2] 0)) (Some [ex_graphic 1]) ex_store)
                = result_value (execute (Some (ex_src [2, 2, 2, 2] 0)) (Some []) ex_store)"
proof (rule execute_all_false_masks)
  show "xdata (ex_src [2, 2, 2, 2] 0) = Some (ex_xdata [2, 2, 2, 2] 0)" by (simp add: ex_src_def)
  show "shape (data (ex_xdata [2, 2, 2, 2] 0)) = [2, 2, 2, 2]" by (simp add: ex_xdata_def)
  show "wf_source ex_store (data (ex_xdata [2, 2, 2, 2] 0))" by (rule ex_wf_source)
  show "\<forall>g \<in> set [ex_graphic 1]. wf_mask ex_store [2, 2] g" by (simp add: ex_wf_mask)
  show "\<forall>g \<in> set [ex_graphic 1]. \<forall>p < 2. \<forall>q < 2.
          \<not> item (bools ex_store) (get_mask g [2, 2]) [p, q]"
    by (auto simp: item_def ex_store_def ex_graphic_def less_Suc_eq numeral_2_eq_2)
qed simp_all

text \<open>C3 as stated (every 4D source) fails when the scan plane is empty: for shape
  \<open>(0, 2, 2, 2)\<close> and the all-false mask, execute raises ValueError and returns no
  result, so no full-frame sum.\<close>

theorem execute_all_false_masks_empty_scan:
  "shape (data (ex_xdata [0, 2, 2, 2] 1)) = [0, 2, 2, 2]
   \<and> wf_source ex_store (data (ex_xdata [0, 2, 2, 2] 1))
   \<and> wf_mask ex_store [2, 2] (ex_graphic 1)
   \<and> \<not> item (bools ex_store) (get_mask (ex_graphic 1) [2, 2]) [0, 0]
   \<and> \<not> item (bools ex_store) (get_mask (ex_graphic 1) [2, 2]) [0, 1]
   \<and> \<not> item (bools ex_store) (get_mask (ex_graphic 1) [2, 2]) [1, 0]
   \<and> \<not> item (bools ex_store) (get_mask (ex_graphic 1) [2, 2]) [1, 1]
   \<and> fst (execute (Some (ex_src [0, 2, 2, 2] 1)) (Some [ex_graphic 1]) ex_store)
       = Inl (ValueError ''cannot reshape array'')"
proof (intro conjI)
  show "fst (execute (Some (ex_src [0, 2, 2, 2] 1)) (Some [ex_graphic 1]) ex_store)
       = Inl (ValueError ''cannot reshape array'')"
    by code_simp
  show "wf_source ex_store (data (ex_xdata [0, 2, 2, 2] 1))"
    by (rule ex_wf_source_empty) simp
  show "wf_mask ex_store [2, 2] (ex_graphic 1)" by (simp add: ex_wf_mask)
qed (simp_all add: item_def ex_store_def ex_graphic_def ex_xdata_def)

section \<open>Order and multiplicity of the masks\<close>

text \<open>
  Claim C9. For a 4D source and two lists of masks of shape \<open>(H, W)\<close> with the same set of
  elements (permutations of each other, or differing in duplicates), the outcomes of
  execute have the same value.
\<close>

theorem execute_mask_order_irrelevant:
  fixes h :: "'a::monoid_add store"
  assumes "xdata s = Some x" and "shape (data x) = [R, C, H, W]"
    and "\<forall>g \<in> set rs1. wf_mask h [H, W] g"
    and "set rs1 = set rs2"
  shows "result_value (execute (Some s) (Some rs1) h) = result_value (execute (Some s) (Some rs2) h)"
proof (cases "R = 0 \<or> C = 0")
  case True
  show ?thesis
    unfolding execute_4d_empty [OF assms(1,2) True] ..
next
  case False
  then have R: "0 < R" and C: "0 < C" by simp_all
  have w2: "\<forall>g \<in> set rs2. wf_mask h [H, W] g" using assms(3,4) by simp
  show ?thesis
    unfolding result_value_4d [OF assms(1,2) R C assms(3)] result_value_4d [OF assms(1,2) R C w2]
      assms(4) ..
qed

text \<open>The theorem for two masks, against the list that swaps them and repeats one.\<close>

theorem execute_mask_order_irrelevant_witness:
  "result_value (execute (Some (ex_src [2, 2, 2, 2] 0)) (Some [ex_graphic 0, ex_graphic 2]) ex_store)
     = result_value (execute (Some (ex_src [2, 2, 2, 2] 0))
                       (Some [ex_graphic 2, ex_graphic 0, ex_graphic 2]) ex_store)"
proof (rule execute_mask_order_irrelevant)
  show "xdata (ex_src [2, 2, 2, 2] 0) = Some (ex_xdata [2, 2, 2, 2] 0)" by (simp add: ex_src_def)
  show "shape (data (ex_xdata [2, 2, 2, 2] 0)) = [2, 2, 2, 2]" by (simp add: ex_xdata_def)
  show "\<forall>g \<in> set [ex_graphic 0, ex_graphic 2]. wf_mask ex_store [2, 2] g"
    by (simp add: ex_wf_mask)
  show "set [ex_graphic 0, ex_graphic 2] = set [ex_graphic 2, ex_graphic 0, ex_graphic 2]"
    by auto
qed

section \<open>Calibrations of the result\<close>

text \<open>
  Claim C6. Whenever execute returns a result, the values of the result's dimensional
  calibrations are those of the source's first two dimensional calibrations, in order,
  the value of its intensity calibration is that of the source's, and the result's
  calibrations are objects allocated by the call: none of them is an object of the
  store before the call, so none is shared with the source.
\<close>

theorem execute_calibrations:
  fixes h :: "'a::monoid_add store"
  assumes "execute (Some s) (Some rs) h = (Inr res, h')" and "xdata s = Some x"
    and "wf_calibrations h x"
  shows "map ((!) (cals h')) (dimensional_calibrations res)
           = map ((!) (cals h)) (take 2 (dimensional_calibrations x))
       \<and> cals h' ! intensity_calibration res = cals h ! intensity_calibration x
       \<and> list_all (\<lambda>a. length (cals h) \<le> a \<and> a < length (cals h'))
            (intensity_calibration res # dimensional_calibrations res)
       \<and> set (intensity_calibration res # dimensional_calibrations res)
           \<inter> set (intensity_calibration x # dimensional_calibrations x) = {}"
proof -
  let ?dcs = "take 2 (dimensional_calibrations x)" and ?ic = "intensity_calibration x"
  from execute_steps [OF assms(1,2)] obtain nd h4 where
    n: "new_data_and_metadata nd ?dcs ?ic h4 = (res, h')" and c4: "cals h4 = cals h"
    by auto
  from n have res: "dimensional_calibrations res = [length (cals h)..<length (cals h) + length ?dcs]"
      "intensity_calibration res = length (cals h) + length ?dcs"
    and h': "cals h' = foldl (\<lambda>l c. l @ [l ! c]) (cals h) (?dcs @ [?ic])"
    unfolding new_data_and_metadata_explicit c4 by auto
  from assms(3) have wd: "list_all (\<lambda>c. c < length (cals h)) ?dcs" and wi: "?ic < length (cals h)"
    and wall: "\<forall>c \<in> set (?ic # dimensional_calibrations x). c < length (cals h)"
    by (auto simp: wf_calibrations_def list_all_iff dest: in_set_takeD)
  note cc = copied_calibrations [OF wd wi, folded h']
  have fresh: "list_all (\<lambda>a. length (cals h) \<le> a \<and> a < length (cals h'))
            (intensity_calibration res # dimensional_calibrations res)"
    unfolding res cc(3) by (auto simp: list_all_iff)
  then have "set (intensity_calibration res # dimensional_calibrations res)
           \<inter> set (intensity_calibration x # dimensional_calibrations x) = {}"
    using wall unfolding list_all_iff by fastforce
  with cc(1,2) fresh show ?thesis unfolding res by simp
qed

text \<open>The theorem for the example source and two masks.\<close>

theorem execute_calibrations_witness:
  "\<exists>res h'. execute (Some (ex_src [2, 2, 2, 2] 0)) (Some [ex_graphic 0, ex_graphic 2]) ex_store
              = (Inr res, h')
     \<and> map ((!) (cals h')) (dimensional_calibrations res)
           = map ((!) (cals ex_store)) (take 2 (dimensional_calibrations (ex_xdata [2, 2, 2, 2] 0)))
     \<and> cals h' ! intensity_calibration res
           = cals ex_store ! intensity_calibration (ex_xdata [2, 2, 2, 2] 0)
     \<and> list_all (\<lambda>a. length (cals ex_store) \<le> a \<and> a < length (cals h'))
            (intensity_calibration res # dimensional_calibrations res)
     \<and> set (intensity_calibration res # dimensional_calibrations res)
           \<inter> set (intensity_calibration (ex_xdata [2, 2, 2, 2] 0)
                    # dimensional_calibrations (ex_xdata [2, 2, 2, 2] 0)) = {}"
proof -
  have x: "xdata (ex_src [2, 2, 2, 2] 0) = Some (ex_xdata [2, 2, 2, 2] 0)"
    by (simp add: ex_src_def)
  from execute_calibrations [OF ex_run x ex_wf_calibrations] ex_run show ?thesis by blast
qed

section \<open>No mutation\<close>

text \<open>
  Claim C8. Whatever execute is called with and whatever its outcome, every object of
  the store before the call (the source array, every mask, every calibration) has
  the same content after the call, and the array of a returned result is a buffer
  allocated by the call: its address is not an address of the store before the call.
\<close>

theorem execute_frame:
  fixes h :: "'a::monoid_add store"
  assumes "execute src map_regions h = (r, h')"
  shows "(\<forall>a < length (nums h). nums h' ! a = nums h ! a)
       \<and> (\<forall>a < length (bools h). bools h' ! a = bools h ! a)
       \<and> (\<forall>a < length (cals h). cals h' ! a = cals h ! a)
       \<and> (\<forall>res. r = Inr res \<longrightarrow> length (nums h) \<le> buf (data res) \<and> buf (data res) < length (nums h'))"
proof -
  have "prefix (nums h) (nums h') \<and> prefix (bools h) (bools h') \<and> prefix (cals h) (cals h')
       \<and> (\<forall>res. r = Inr res \<longrightarrow> length (nums h) \<le> buf (data res) \<and> buf (data res) < length (nums h'))"
  proof (cases src)
    case None
    with assms show ?thesis by (auto simp: execute_def)
  next
    case src: (Some s)
    show ?thesis
    proof (cases map_regions)
      case None
      with assms src show ?thesis by (auto simp: execute_def)
    next
      case rs: (Some rs)
      show ?thesis
      proof (cases "xdata s")
        case None
        with assms src rs show ?thesis by (auto simp: execute_def)
      next
        case (Some x)
        let ?dcs = "take 2 (dimensional_calibrations x)" and ?ic = "intensity_calibration x"
        from assms src rs have ex: "execute (Some s) (Some rs) h = (r, h')" by simp
        from execute_steps [OF ex Some] show ?thesis
        proof (elim disjE exE conjE)
          fix e assume "r = Inl e" "cals h' = cals h" "prefix (nums h) (nums h')"
            "prefix (bools h) (bools h')"
          then show ?thesis by simp
        next
          fix res nd h4
          assume r: "r = Inr res" and n: "new_data_and_metadata nd ?dcs ?ic h4 = (res, h')"
            and f: "cals h4 = cals h" "prefix (nums h) (nums h4)" "prefix (bools h) (bools h4)"
            and b: "length (nums h) \<le> buf nd" "buf nd < length (nums h4)"
          from n have "data res = nd" "nums h' = nums h4" "bools h' = bools h4"
            "cals h' = foldl (\<lambda>l c. l @ [l ! c]) (cals h) (?dcs @ [?ic])"
            unfolding new_data_and_metadata_explicit f(1) [symmetric] by auto
          with r f b show ?thesis by (simp add: prefix_foldl_copy)
        qed
      qed
    qed
  qed
  then show ?thesis by (simp add: prefix_nth)
qed

text \<open>The theorem for the example source and two masks.\<close>

theorem execute_frame_witness:
  "\<exists>r h'. execute (Some (ex_src [2, 2, 2, 2] 0)) (Some [ex_graphic 0, ex_graphic 2]) ex_store
              = (r, h')
     \<and> (\<forall>a < length (nums ex_store). nums h' ! a = nums ex_store ! a)
     \<and> (\<forall>a < length (bools ex_store). bools h' ! a = bools ex_store ! a)
     \<and> (\<forall>a < length (cals ex_store). cals h' ! a = cals ex_store ! a)
     \<and> (\<forall>res. r = Inr res \<longrightarrow>
            length (nums ex_store) \<le> buf (data res) \<and> buf (data res) < length (nums h'))"
  using execute_frame [OF ex_run] ex_run by blast

section \<open>The assertions\<close>

text \<open>
  Claim C10. execute fails with AssertionError, before anything is computed or allocated
  (the store is as it was), when the source is None, when the mask list is None, and
  when the source has no xdata. The empty list is accepted: with xdata present and no
  mask, no assertion fails.
\<close>

theorem execute_requires_inputs:
  fixes h :: "'a::monoid_add store"
  shows "execute None map_regions h = (Inl AssertionError, h)
       \<and> execute (Some s) None h = (Inl AssertionError, h)
       \<and> execute (Some \<lparr>xdata = None\<rparr>) (Some rs) h = (Inl AssertionError, h)
       \<and> fst (execute (Some \<lparr>xdata = Some x\<rparr>) (Some []) h) \<noteq> Inl AssertionError"
proof -
  have "fst (execute (Some \<lparr>xdata = Some x\<rparr>) (Some []) h) \<noteq> Inl AssertionError"
    by (auto simp: execute_def np_reshape_def fix_unknown_dimension_def np_zeros_def new_bool_def
          np_any_def np_sum_def new_num_def new_data_and_metadata_explicit Let_def
        split: sum.splits if_splits)
  then show ?thesis by (simp add: execute_def)
qed

section \<open>Sources that are not 4D\<close>

text \<open>
  Claim C4, as amended. The check is made by \<^verbatim>\<open>map_4D\<close>, when the computation is set
  up, not by execute, and it is the host's property \<^verbatim>\<open>is_data_4d\<close>, whatever the
  host takes it to mean. For a display channel with a data item, when the xdata is
  missing or \<^verbatim>\<open>is_data_4d\<close> is false of it, \<^verbatim>\<open>map_4D\<close> raises
  ValueError("Data item must be 4D."), creates no computation and has allocated nothing
  (the store is as it was, so no mask buffer); otherwise it creates the computation
  \<^verbatim>\<open>nion.map_4d.2\<close> on that channel and those regions.
\<close>

theorem map_4D_requires_4d:
  assumes "data_item channel = Some src"
  shows "map_4D is_data_4d (Some channel) map_regions h =
           (if \<exists>x. xdata src = Some x \<and> is_data_4d x
            then (Inr \<lparr>processing_id = ''nion.map_4d.2'', input_src = channel,
                        input_map_regions = map_regions\<rparr>, h)
            else (Inl (ValueError ''Data item must be 4D.''), h))"
  using assms by (cases "xdata src") (simp_all add: map_4D_def)

text \<open>The theorem for a (2,2,4) source and a host property that asks for four
  non-empty dimensions.\<close>

theorem map_4D_requires_4d_witness:
  "map_4D (\<lambda>x. length (shape (data x)) = 4 \<and> 0 \<notin> set (shape (data x)))
     (Some \<lparr>data_item = Some (ex_src [2, 2, 4] 0)\<rparr>) [] ex_store
     = (Inl (ValueError ''Data item must be 4D.''), ex_store)"
proof -
  have d: "data_item \<lparr>data_item = Some (ex_src [2, 2, 4] 0)\<rparr> = Some (ex_src [2, 2, 4] 0)"
    by simp
  show ?thesis
    unfolding map_4D_requires_4d [OF d] by (simp add: ex_src_def ex_xdata_def)
qed

text \<open>C4 as stated fails: execute makes no check of the number of dimensions. Called on
  the 3D source of shape \<open>(2, 2, 4)\<close> with no mask, it raises nothing and returns the sums
  over the last axis.\<close>

theorem execute_accepts_3d:
  "shape (data (ex_xdata [2, 2, 4] 0)) = [2, 2, 4]
   \<and> wf_source ex_store (data (ex_xdata [2, 2, 4] 0))
   \<and> result_value (execute (Some (ex_src [2, 2, 4] 0)) (Some []) ex_store)
       = Inr ([2, 2], [6, 22, 38, 54],
              [\<lparr>offset = 0, scale = 1, units = ''nm''\<rparr>, \<lparr>offset = 1, scale = 2, units = ''nm''\<rparr>],
              \<lparr>offset = 0, scale = 1, units = ''counts''\<rparr>)"
proof (intro conjI)
  show "result_value (execute (Some (ex_src [2, 2, 4] 0)) (Some []) ex_store)
       = Inr ([2, 2], [6, 22, 38, 54],
              [\<lparr>offset = 0, scale = 1, units = ''nm''\<rparr>, \<lparr>offset = 1, scale = 2, units = ''nm''\<rparr>],
              \<lparr>offset = 0, scale = 1, units = ''counts''\<rparr>)"
    by code_simp
  show "wf_source ex_store (data (ex_xdata [2, 2, 4] 0))"
    by (simp add: wf_source_def ex_store_def ex_xdata_def)
qed (simp add: ex_xdata_def)

section \<open>Determinism\<close>

text \<open>
  Claim C7. Two invocations of execute with identical source array (same shape, same
  elements), identical mask list (pairwise same shape and elements) and identical
  calibrations (same values) have outcomes of the same value: the same error, or results
  with the same shape, the same elements and the same calibration values. Nothing else
  has an influence: not the addresses of the objects, not the other objects of the
  store. The two invocations may run in different stores.
\<close>

theorem execute_deterministic:
  fixes h1 h2 :: "'a::monoid_add store"
  assumes x1: "xdata s1 = Some x1" and x2: "xdata s2 = Some x2"
    and shp: "shape (data x1) = shape (data x2)"
    and src: "nums h1 ! buf (data x1) = nums h2 ! buf (data x2)"
    and masks: "list_all2 (same_mask h1 h2 (drop 2 (shape (data x1)))) rs1 rs2"
    and wc1: "wf_calibrations h1 x1" and wc2: "wf_calibrations h2 x2"
    and dc: "map ((!) (cals h1)) (dimensional_calibrations x1)
               = map ((!) (cals h2)) (dimensional_calibrations x2)"
    and ic: "cals h1 ! intensity_calibration x1 = cals h2 ! intensity_calibration x2"
  shows "result_value (execute (Some s1) (Some rs1) h1)
           = result_value (execute (Some s2) (Some rs2) h2)"
proof -
  let ?S = "drop 2 (shape (data x1))"
  let ?ns = "map int (take 2 (shape (data x1))) @ [- 1]"
  from np_reshape_cong [OF shp, of ?ns] show ?thesis
  proof (elim disjE exE conjE)
    fix e assume "np_reshape (data x1) ?ns = Inl e" "np_reshape (data x2) ?ns = Inl e"
    with x1 x2 shp show ?thesis by (simp add: execute_def result_value_def)
  next
    fix s
    define d1 where "d1 = \<lparr>shape = s, buf = buf (data x1)\<rparr>"
    define d2 where "d2 = \<lparr>shape = s, buf = buf (data x2)\<rparr>"
    assume "np_reshape (data x1) ?ns = Inr \<lparr>shape = s, buf = buf (data x1)\<rparr>"
      "np_reshape (data x2) ?ns = Inr \<lparr>shape = s, buf = buf (data x2)\<rparr>"
    then have r1: "np_reshape (data x1) ?ns = Inr d1"
      and r2: "np_reshape (data x2) (map int (take 2 (shape (data x2))) @ [- 1]) = Inr d2"
      by (simp_all add: d1_def d2_def shp)
    obtain m01 k1 where z1: "np_zeros ?S h1 = (m01, k1)" by (cases "np_zeros ?S h1")
    obtain m02 k2 where z2: "np_zeros ?S h2 = (m02, k2)" by (cases "np_zeros ?S h2")
    from z1 have fz1: "nums k1 = nums h1" "cals k1 = cals h1" "prefix (bools h1) (bools k1)"
      "shape m01 = ?S" "bools k1 ! buf m01 = replicate (prod_list ?S) False"
      by (auto simp: np_zeros_def new_bool_def)
    from z2 have fz2: "nums k2 = nums h2" "cals k2 = cals h2" "prefix (bools h2) (bools k2)"
      "shape m02 = ?S" "bools k2 ! buf m02 = replicate (prod_list ?S) False"
      by (auto simp: np_zeros_def new_bool_def)
    obtain rl1 j1 where l1: "mask_loop rs1 ?S m01 k1 = (rl1, j1)" by (cases "mask_loop rs1 ?S m01 k1")
    obtain rl2 j2 where l2: "mask_loop rs2 ?S m02 k2 = (rl2, j2)" by (cases "mask_loop rs2 ?S m02 k2")
    have fl1: "nums j1 = nums h1" "cals j1 = cals h1"
      using mask_loop_frame [OF l1] fz1 by simp_all
    have fl2: "nums j2 = nums h2" "cals j2 = cals h2"
      using mask_loop_frame [OF l2] fz2 by simp_all
    have mv: "mask_value (rl1, j1) = mask_value (rl2, j2)"
      using mask_loop_cong [OF masks fz1(3) fz2(3), of m01 m02] fz1(4,5) fz2(4,5) l1 l2 by simp
    have e1: "execute (Some s1) (Some rs1) h1 =
     (case rl1 of
        Inl e \<Rightarrow> (Inl e, j1)
      | Inr m \<Rightarrow>
         (case (if np_any m j1
                then case index_last d1 (true_indices m j1) j1 of
                       (Inl e, h3) \<Rightarrow> (Inl e, h3)
                     | (Inr selected, h3) \<Rightarrow> np_sum selected h3
                else np_sum d1 j1) of
            (Inl e, h4) \<Rightarrow> (Inl e, h4)
          | (Inr new_data, h4) \<Rightarrow>
              apfst Inr (new_data_and_metadata new_data
                           (take 2 (dimensional_calibrations x1))
                           (intensity_calibration x1) h4)))"
      by (rule execute_after_reshape [OF x1 r1 z1 l1])
    have e2: "execute (Some s2) (Some rs2) h2 =
     (case rl2 of
        Inl e \<Rightarrow> (Inl e, j2)
      | Inr m \<Rightarrow>
         (case (if np_any m j2
                then case index_last d2 (true_indices m j2) j2 of
                       (Inl e, h3) \<Rightarrow> (Inl e, h3)
                     | (Inr selected, h3) \<Rightarrow> np_sum selected h3
                else np_sum d2 j2) of
            (Inl e, h4) \<Rightarrow> (Inl e, h4)
          | (Inr new_data, h4) \<Rightarrow>
              apfst Inr (new_data_and_metadata new_data
                           (take 2 (dimensional_calibrations x2))
                           (intensity_calibration x2) h4)))"
      by (rule execute_after_reshape [OF x2 r2 z2 [unfolded shp] l2 [unfolded shp]])
    show ?thesis
    proof (cases rl1)
      case (Inl e)
      with mv have "rl2 = Inl e" by (cases rl2) (simp_all add: mask_value_def)
      with Inl show ?thesis unfolding e1 e2 by (simp add: result_value_def)
    next
      case (Inr m1)
      with mv obtain m2 where rl2: "rl2 = Inr m2" by (cases rl2) (simp_all add: mask_value_def)
      with mv Inr have me: "shape m1 = shape m2" "bools j1 ! buf m1 = bools j2 ! buf m2"
        by (simp_all add: mask_value_def)
      have de: "shape d1 = shape d2" "nums j1 ! buf d1 = nums j2 ! buf d2"
        by (simp_all add: d1_def d2_def fl1 fl2 src)
      obtain rr1 i1 where red1: "(if np_any m1 j1
                then case index_last d1 (true_indices m1 j1) j1 of
                       (Inl e, h3) \<Rightarrow> (Inl e, h3)
                     | (Inr selected, h3) \<Rightarrow> np_sum selected h3
                else np_sum d1 j1) = (rr1, i1)"
        by (cases "if np_any m1 j1
                then case index_last d1 (true_indices m1 j1) j1 of
                       (Inl e, h3) \<Rightarrow> (Inl e, h3)
                     | (Inr selected, h3) \<Rightarrow> np_sum selected h3
                else np_sum d1 j1")
      obtain rr2 i2 where red2: "(if np_any m2 j2
                then case index_last d2 (true_indices m2 j2) j2 of
                       (Inl e, h3) \<Rightarrow> (Inl e, h3)
                     | (Inr selected, h3) \<Rightarrow> np_sum selected h3
                else np_sum d2 j2) = (rr2, i2)"
        by (cases "if np_any m2 j2
                then case index_last d2 (true_indices m2 j2) j2 of
                       (Inl e, h3) \<Rightarrow> (Inl e, h3)
                     | (Inr selected, h3) \<Rightarrow> np_sum selected h3
                else np_sum d2 j2")
      have nv: "num_value (rr1, i1) = num_value (rr2, i2)"
        using reduction_cong [OF me de] red1 red2 by simp
      have c1: "cals i1 = cals h1" using reduction_frame [OF red1] fl1 by simp
      have c2: "cals i2 = cals h2" using reduction_frame [OF red2] fl2 by simp
      have f1: "execute (Some s1) (Some rs1) h1 =
          (case rr1 of Inl e \<Rightarrow> (Inl e, i1)
           | Inr nd \<Rightarrow> apfst Inr (new_data_and_metadata nd (take 2 (dimensional_calibrations x1))
                           (intensity_calibration x1) i1))"
        unfolding e1 using Inr red1 by (simp split: sum.splits)
      have f2: "execute (Some s2) (Some rs2) h2 =
          (case rr2 of Inl e \<Rightarrow> (Inl e, i2)
           | Inr nd \<Rightarrow> apfst Inr (new_data_and_metadata nd (take 2 (dimensional_calibrations x2))
                           (intensity_calibration x2) i2))"
        unfolding e2 using rl2 red2 by (simp split: sum.splits)
      show ?thesis
      proof (cases rr1)
        case (Inl e)
        with nv have "rr2 = Inl e" by (cases rr2) (simp_all add: num_value_def)
        with Inl show ?thesis unfolding f1 f2 by (simp add: result_value_def)
      next
        case nd1: (Inr nd1)
        with nv obtain nd2 where nd2: "rr2 = Inr nd2" by (cases rr2) (simp_all add: num_value_def)
        with nv nd1 have ne: "shape nd1 = shape nd2" "nums i1 ! buf nd1 = nums i2 ! buf nd2"
          by (simp_all add: num_value_def)
        let ?dcs1 = "take 2 (dimensional_calibrations x1)"
        let ?dcs2 = "take 2 (dimensional_calibrations x2)"
        from wc1 have w1: "list_all (\<lambda>c. c < length (cals h1)) ?dcs1"
          "intensity_calibration x1 < length (cals h1)"
          by (auto simp: wf_calibrations_def list_all_iff dest: in_set_takeD)
        from wc2 have w2: "list_all (\<lambda>c. c < length (cals h2)) ?dcs2"
          "intensity_calibration x2 < length (cals h2)"
          by (auto simp: wf_calibrations_def list_all_iff dest: in_set_takeD)
        have dce: "map ((!) (cals h1)) ?dcs1 = map ((!) (cals h2)) ?dcs2"
          using dc by (simp add: take_map [symmetric])
        show ?thesis
          unfolding f1 f2 nd1 nd2 sum.case result_value_new c1 c2
            copied_calibrations(1,2) [OF w1] copied_calibrations(1,2) [OF w2]
          using ne dce ic by simp
      qed
    qed
  qed
qed

text \<open>The theorem for the example source and two masks, once in each example store.\<close>

theorem execute_deterministic_witness:
  "result_value (execute (Some (ex_src [2, 2, 2, 2] 0)) (Some [ex_graphic 0, ex_graphic 2]) ex_store)
     = result_value (execute (Some \<lparr>xdata = Some ex_xdata2\<rparr>)
                       (Some [ex_graphic 1, ex_graphic 0]) ex_store2)"
proof (rule execute_deterministic)
  show "xdata (ex_src [2, 2, 2, 2] 0) = Some (ex_xdata [2, 2, 2, 2] 0)" by (simp add: ex_src_def)
  show "xdata \<lparr>xdata = Some ex_xdata2\<rparr> = Some ex_xdata2" by simp
  show "shape (data (ex_xdata [2, 2, 2, 2] 0)) = shape (data ex_xdata2)"
    by (simp add: ex_xdata_def ex_xdata2_def)
  show "nums ex_store ! buf (data (ex_xdata [2, 2, 2, 2] 0)) = nums ex_store2 ! buf (data ex_xdata2)"
    by (simp add: ex_xdata_def ex_xdata2_def ex_store_def ex_store2_def)
  show "list_all2 (same_mask ex_store ex_store2 (drop 2 (shape (data (ex_xdata [2, 2, 2, 2] 0)))))
          [ex_graphic 0, ex_graphic 2] [ex_graphic 1, ex_graphic 0]"
    by (simp add: same_mask_def ex_graphic_def ex_store_def ex_store2_def ex_xdata_def)
  show "wf_calibrations ex_store (ex_xdata [2, 2, 2, 2] 0)" by (rule ex_wf_calibrations)
  show "wf_calibrations ex_store2 ex_xdata2"
    by (simp add: wf_calibrations_def ex_store2_def ex_xdata2_def)
  show "map ((!) (cals ex_store)) (dimensional_calibrations (ex_xdata [2, 2, 2, 2] 0))
          = map ((!) (cals ex_store2)) (dimensional_calibrations ex_xdata2)"
    by (simp add: ex_store_def ex_store2_def ex_xdata_def ex_xdata2_def upt_conv_Cons)
  show "cals ex_store ! intensity_calibration (ex_xdata [2, 2, 2, 2] 0)
          = cals ex_store2 ! intensity_calibration ex_xdata2"
    by (simp add: ex_store_def ex_store2_def ex_xdata_def ex_xdata2_def)
qed

end
